theory Spec2Isabelle
  imports Complex_Main "HOL-Library.Word"
begin

section \<open>Data model\<close>

text \<open>
  The segment record of \<^verbatim>\<open>yatsm/algorithms/yatsm.py\<close> is a NumPy structured dtype:
  \<^verbatim>\<open>start\<close>, \<^verbatim>\<open>end\<close> and \<^verbatim>\<open>break\<close> are \<^verbatim>\<open>i4\<close> (signed 32-bit), \<^verbatim>\<open>px\<close> and
  \<^verbatim>\<open>py\<close> are \<^verbatim>\<open>u2\<close> (unsigned 16-bit) and \<^verbatim>\<open>coef\<close> is a float32 matrix with one
  row per design column and one column per fitted band. The field \<^verbatim>\<open>end\<close> is named
  \<open>end_date\<close> here, since \<^verbatim>\<open>end\<close> is reserved. Floating-point numbers are modelled
  by exact reals: rounding is outside the model.
\<close>

type_synonym i4 = "32 word"
type_synonym u2 = "16 word"

record segment =
  start :: i4
  end_date :: i4
  break :: i4
  coef :: "real list list"
  px :: u2
  py :: u2

text \<open>
  Exceptions of the source. \<open>ConfigurationError\<close> is a name of the specification's
  error taxonomy: no branch of the source raises it, only the detector modelled
  from the specification returns it.
\<close>

datatype error =
    AttributeError
  | TypeError
  | IndexError
  | ValueError
  | IOError
  | TrainingDataException
  | ConfigurationError

section \<open>The model base class (yatsm/algorithms/yatsm.py)\<close>

text \<open>
  Python values that reach the constructor as \<^verbatim>\<open>fit_indices\<close> and \<^verbatim>\<open>test_indices\<close>:
  the \<^verbatim>\<open>None\<close> object, a sequence of integers, and what \<^verbatim>\<open>np.asarray\<close> makes of
  them. \<^verbatim>\<open>np.asarray(None)\<close> is a 0-dimensional object array holding \<^verbatim>\<open>None\<close>;
  it is an array object, not the \<^verbatim>\<open>None\<close> object.
\<close>

datatype pyobj =
    PyNone
  | PySeq "int list"
  | NdArray0d_None
  | NdArray "int list"

fun np_asarray :: "pyobj \<Rightarrow> pyobj" where
  "np_asarray PyNone = NdArray0d_None"
| "np_asarray (PySeq xs) = NdArray xs"
| "np_asarray NdArray0d_None = NdArray0d_None"
| "np_asarray (NdArray xs) = NdArray xs"

text \<open>\<^verbatim>\<open>x is None\<close>: identity with the \<^verbatim>\<open>None\<close> object.\<close>

definition is_None :: "pyobj \<Rightarrow> bool" where
  "is_None x = (x = PyNone)"

text \<open>\<^verbatim>\<open>len(x)\<close>: a \<^verbatim>\<open>TypeError\<close> for \<^verbatim>\<open>None\<close> and for an unsized 0-d array.\<close>

fun py_len :: "pyobj \<Rightarrow> error + nat" where
  "py_len PyNone = Inl TypeError"
| "py_len (PySeq xs) = Inr (length xs)"
| "py_len NdArray0d_None = Inl TypeError"
| "py_len (NdArray xs) = Inr (length xs)"

text \<open>
  The part of \<^verbatim>\<open>patsy.DesignInfo\<close> the constructor reads: the column names and the
  ordered dictionary from term names to column slices (\<open>(start, stop)\<close>).
\<close>

record design_info =
  column_names :: "string list"
  term_name_slices :: "(string \<times> nat \<times> nat) list"

text \<open>Keyword arguments: a dictionary from names to integers; \<^verbatim>\<open>kwargs.get(k, d)\<close>.\<close>

type_synonym kwargs = "(string \<times> int) list"

definition kwargs_get :: "kwargs \<Rightarrow> string \<Rightarrow> int \<Rightarrow> int" where
  "kwargs_get kw k d = (case map_of kw k of None \<Rightarrow> d | Some v \<Rightarrow> v)"

text \<open>
  \<^verbatim>\<open>object.__init__\<close>, which \<^verbatim>\<open>super(YATSM, self).__init__(**kwargs)\<close> reaches when
  the instance's class has no other base: it takes no parameters.
\<close>

definition object_init :: "kwargs \<Rightarrow> error + unit" where
  "object_init kw = (if kw = [] then Inr () else Inl TypeError)"

text \<open>
  The attributes of a model instance. The attribute \<^verbatim>\<open>record\<close> is named
  \<open>record_array\<close>, since \<^verbatim>\<open>record\<close> is reserved.
\<close>

record YATSM =
  fit_indices :: pyobj
  design_info :: design_info
  i_x :: nat
  test_indices :: pyobj
  record_template :: "segment list"
  n_record :: nat
  record_array :: "segment list"

text \<open>\<^verbatim>\<open>np.zeros(1, dtype=[...])\<close> with a \<open>ncol \<times> nfit\<close> coefficient sub-array.\<close>

definition np_zeros_record :: "nat \<Rightarrow> nat \<Rightarrow> segment list" where
  "np_zeros_record ncol nfit =
     [\<lparr>start = 0, end_date = 0, break = 0,
       coef = replicate ncol (replicate nfit 0), px = 0, py = 0\<rparr>]"

text \<open>
  \<^verbatim>\<open>YATSM.__init__\<close>. The first argument is the initializer that follows \<^verbatim>\<open>YATSM\<close>
  in the method resolution order of the instance (\<open>object_init\<close> for a direct
  instance). Storing a Python integer in a \<^verbatim>\<open>u2\<close> field keeps its low 16 bits.
\<close>

definition YATSM_init ::
  "(kwargs \<Rightarrow> error + unit) \<Rightarrow> pyobj \<Rightarrow> design_info \<Rightarrow> pyobj \<Rightarrow> kwargs \<Rightarrow> error + YATSM"
where
  "YATSM_init super_init fit_indices_arg design_info_arg test_indices_arg kw =
     (let fit = np_asarray fit_indices_arg in
      case map_of (term_name_slices design_info_arg) ''x'' of
        None \<Rightarrow> Inl AttributeError
      | Some sl \<Rightarrow>
          (let ix = fst sl;
               test0 = np_asarray test_indices_arg;
               test = (if is_None test0 then fit else test0)
           in case py_len fit of
                Inl e \<Rightarrow> Inl e
              | Inr nfit \<Rightarrow>
                  (let template0 = np_zeros_record (length (column_names design_info_arg)) nfit;
                       template1 = map (\<lambda>r. r\<lparr>px := word_of_int (kwargs_get kw ''px'' 0)\<rparr>) template0;
                       template2 = map (\<lambda>r. r\<lparr>py := word_of_int (kwargs_get kw ''py'' 0)\<rparr>) template1;
                       m = \<lparr>fit_indices = fit, design_info = design_info_arg, i_x = ix,
                            test_indices = test, record_template = template2,
                            n_record = 0, record_array = template2\<rparr>
                   in case super_init kw of
                        Inl e \<Rightarrow> Inl e
                      | Inr u \<Rightarrow> Inr m)))"

text \<open>\<^verbatim>\<open>__iter__\<close> yields the elements of \<^verbatim>\<open>self.record\<close>; \<^verbatim>\<open>__len__\<close> is its length.\<close>

definition YATSM_iter :: "YATSM \<Rightarrow> segment list" where
  "YATSM_iter m = record_array m"

definition YATSM_len :: "YATSM \<Rightarrow> nat" where
  "YATSM_len m = length (record_array m)"

section \<open>Saved results and NumPy indexing\<close>

text \<open>
  A saved result array (the \<^verbatim>\<open>record\<close> entry of a result file) carries, besides the
  fields of the template, the per-band RMSE and the robust estimates that the map
  script selects with \<^verbatim>\<open>--robust\<close>.
\<close>

record result = segment +
  rmse :: "real list"
  robust_coef :: "real list list"
  robust_rmse :: "real list"

text \<open>\<^verbatim>\<open>rec[_coef]\<close> and \<^verbatim>\<open>rec[_rmse]\<close>, the field chosen by \<^verbatim>\<open>use_robust\<close>.\<close>

definition get_coef :: "bool \<Rightarrow> result \<Rightarrow> real list list" where
  "get_coef use_robust r = (if use_robust then robust_coef r else coef r)"

definition set_coef :: "bool \<Rightarrow> real list list \<Rightarrow> result \<Rightarrow> result" where
  "set_coef use_robust c r = (if use_robust then r\<lparr>robust_coef := c\<rparr> else r\<lparr>coef := c\<rparr>)"

definition get_rmse :: "bool \<Rightarrow> result \<Rightarrow> real list" where
  "get_rmse use_robust r = (if use_robust then robust_rmse r else rmse r)"

text \<open>Exceptions as values: a loop stops at the first error.\<close>

fun mapM :: "('a \<Rightarrow> error + 'b) \<Rightarrow> 'a list \<Rightarrow> error + 'b list" where
  "mapM f [] = Inr []"
| "mapM f (x # xs) =
     (case f x of
        Inl e \<Rightarrow> Inl e
      | Inr y \<Rightarrow> (case mapM f xs of Inl e \<Rightarrow> Inl e | Inr ys \<Rightarrow> Inr (y # ys)))"

fun foldM :: "('s \<Rightarrow> 'a \<Rightarrow> error + 's) \<Rightarrow> 's \<Rightarrow> 'a list \<Rightarrow> error + 's" where
  "foldM f s [] = Inr s"
| "foldM f s (x # xs) = (case f s x of Inl e \<Rightarrow> Inl e | Inr s' \<Rightarrow> foldM f s' xs)"

text \<open>\<^verbatim>\<open>np.where(cond)[0]\<close>: the positions where the condition holds, ascending.\<close>

definition np_where :: "('a \<Rightarrow> bool) \<Rightarrow> 'a list \<Rightarrow> nat list" where
  "np_where P xs = filter (\<lambda>i. P (xs ! i)) [0..<length xs]"

text \<open>
  \<^verbatim>\<open>np.unique(ar, return_index=True)[1]\<close>: for each distinct value, in ascending order
  of the values, the position of its first occurrence in \<^verbatim>\<open>ar\<close>.
\<close>

primrec first_occurrence :: "'a list \<Rightarrow> 'a \<Rightarrow> nat" where
  "first_occurrence [] v = 0"
| "first_occurrence (x # xs) v = (if x = v then 0 else Suc (first_occurrence xs v))"

definition np_unique_return_index :: "'a::linorder list \<Rightarrow> nat list" where
  "np_unique_return_index ar = map (first_occurrence ar) (sort (remdups ar))"

text \<open>Indexing with a Python integer: negative indices count from the end.\<close>

definition py_at :: "'a list \<Rightarrow> int \<Rightarrow> 'a" where
  "py_at xs i = xs ! nat (if i < 0 then int (length xs) + i else i)"

definition py_index :: "'a list \<Rightarrow> int \<Rightarrow> error + 'a" where
  "py_index xs i =
     (let n = int (length xs); j = (if i < 0 then n + i else i)
      in if 0 \<le> j \<and> j < n then Inr (py_at xs i) else Inl IndexError)"

text \<open>Indexing with a list of integers (\<^verbatim>\<open>a[idx]\<close>).\<close>

definition take_indices :: "'a list \<Rightarrow> int list \<Rightarrow> error + 'a list" where
  "take_indices xs idx = mapM (py_index xs) idx"

section \<open>Date-based segment lookup (scripts/yatsm_map.py)\<close>

text \<open>
  \<^verbatim>\<open>find_indices(record, date, after=False, before=False)\<close> is a generator; the model
  is the list of the index arrays it yields, in order. It reads the fields
  \<^verbatim>\<open>start\<close>, \<^verbatim>\<open>end\<close>, \<^verbatim>\<open>break\<close> and \<^verbatim>\<open>px\<close> only, which no caller writes between
  two yields.
\<close>

definition find_indices ::
  "('a segment_scheme) list \<Rightarrow> int \<Rightarrow> bool \<Rightarrow> bool \<Rightarrow> nat list list"
where
  "find_indices rec date after before =
     (if before
      then [np_where (\<lambda>r. sint (end_date r) \<le> date \<and> break r = 0) rec]
      else []) @
     (if after
      then [let index = np_where (\<lambda>r. sint (start r) \<ge> date) rec;
                uindex = np_unique_return_index (map (\<lambda>i. px (rec ! i)) index)
            in map (\<lambda>j. index ! j) uindex]
      else []) @
     [np_where (\<lambda>r. sint (start r) \<le> date \<and> sint (end_date r) \<ge> date) rec]"

section \<open>Coefficient export (scripts/yatsm_map.py)\<close>

text \<open>
  The mid-point of a segment as the export computes it: the sum of the two \<^verbatim>\<open>i4\<close>
  fields is an \<^verbatim>\<open>i4\<close> array sum (it wraps), divided by \<^verbatim>\<open>2.0\<close>.
\<close>

definition midpoint :: "'a segment_scheme \<Rightarrow> real" where
  "midpoint r = real_of_int (sint (start r + end_date r)) / 2"

text \<open>
  \<^verbatim>\<open>rec[_coef][index, 0, :] += mid[:, None] * rec[_coef][index, 1, :]\<close> for one
  record: row 0 of the chosen coefficient field is overwritten in the array itself.
\<close>

definition normalize_intercept :: "bool \<Rightarrow> result \<Rightarrow> error + result" where
  "normalize_intercept use_robust r =
     (let c = get_coef use_robust r
      in if length c < 2 then Inl IndexError
         else Inr (set_coef use_robust
                     (c[0 := map2 (\<lambda>a b. a + midpoint r * b) (c ! 0) (c ! 1)]) r))"

text \<open>The same statement for the whole array: the records at \<open>index\<close> are updated.\<close>

definition normalize_at :: "bool \<Rightarrow> result list \<Rightarrow> nat list \<Rightarrow> error + result list" where
  "normalize_at use_robust rec index =
     mapM (\<lambda>(i, r). if i \<in> set index then normalize_intercept use_robust r else Inr r)
          (zip [0..<length rec] rec)"

text \<open>
  \<^verbatim>\<open>np.reshape(c[i_coefs, :][:, i_bands], n_coefs * n_bands)\<close> for one record: the
  chosen coefficients, coefficient-major.
\<close>

definition extract_coefs :: "real list list \<Rightarrow> int list \<Rightarrow> int list \<Rightarrow> error + real list" where
  "extract_coefs c i_coefs i_bands =
     (case take_indices c i_coefs of
        Inl e \<Rightarrow> Inl e
      | Inr rows \<Rightarrow>
          (case mapM (\<lambda>row. take_indices row i_bands) rows of
             Inl e \<Rightarrow> Inl e
           | Inr sel \<Rightarrow> Inr (concat sel)))"

text \<open>
  The output raster: rows (y), columns (x), bands. \<open>raster_write\<close> is
  \<^verbatim>\<open>raster[y, x, off:off + len(vals)] = vals\<close> for one pixel, an \<^verbatim>\<open>IndexError\<close>
  outside the image; \<open>raster_assign\<close> is the assignment through index arrays, one
  pixel after the other, so that the last value written to a pixel stays.
\<close>

type_synonym 'v raster = "'v list list list"

definition raster_write :: "'v raster \<Rightarrow> nat \<Rightarrow> nat \<Rightarrow> nat \<Rightarrow> 'v list \<Rightarrow> error + 'v raster" where
  "raster_write ras y x off vals =
     (if y < length ras \<and> x < length (ras ! y)
      then Inr (ras[y := (ras ! y)[x := take off (ras ! y ! x) @ vals @
                                        drop (off + length vals) (ras ! y ! x)]])
      else Inl IndexError)"

definition raster_assign :: "nat \<Rightarrow> 'v raster \<Rightarrow> (nat \<times> nat \<times> 'v list) list \<Rightarrow> error + 'v raster" where
  "raster_assign off ras ws = foldM (\<lambda>ras' (y, x, vals). raster_write ras' y x off vals) ras ws"

text \<open>The body of the loop over the index arrays, for one index array.\<close>

definition coef_step ::
  "bool \<Rightarrow> bool \<Rightarrow> int list \<Rightarrow> int list \<Rightarrow> real raster \<times> result list \<Rightarrow> nat list
   \<Rightarrow> error + real raster \<times> result list"
where
  "coef_step use_robust use_rmse i_bands i_coefs st index =
     (case st of (ras, rec) \<Rightarrow>
        if index = [] then Inr (ras, rec)
        else
          (case normalize_at use_robust rec index of
             Inl e \<Rightarrow> Inl e
           | Inr rec' \<Rightarrow>
               (case mapM (\<lambda>i. case extract_coefs (get_coef use_robust (rec' ! i)) i_coefs i_bands of
                                   Inl e \<Rightarrow> Inl e
                                 | Inr vals \<Rightarrow> Inr (unat (py (rec' ! i)), unat (px (rec' ! i)), vals))
                          index of
                  Inl e \<Rightarrow> Inl e
                | Inr ws \<Rightarrow>
                    (case raster_assign 0 ras ws of
                       Inl e \<Rightarrow> Inl e
                     | Inr ras' \<Rightarrow>
                         if \<not> use_rmse then Inr (ras', rec')
                         else
                           (case mapM (\<lambda>i. case take_indices (get_rmse use_robust (rec' ! i)) i_bands of
                                               Inl e \<Rightarrow> Inl e
                                             | Inr vals \<Rightarrow>
                                                 Inr (unat (py (rec' ! i)), unat (px (rec' ! i)), vals))
                                      index of
                              Inl e \<Rightarrow> Inl e
                            | Inr ws' \<Rightarrow>
                                (case raster_assign (length i_coefs * length i_bands) ras' ws' of
                                   Inl e \<Rightarrow> Inl e
                                 | Inr ras'' \<Rightarrow> Inr (ras'', rec')))))))"

text \<open>
  \<^verbatim>\<open>get_coefficients\<close>. The result files are the argument \<open>recs\<close> (the arrays that
  \<^verbatim>\<open>iter_records\<close> yields), the example image gives \<open>ysize\<close> and \<open>xsize\<close>, and
  \<open>i_bands\<close>, \<open>i_coefs\<close>, \<open>use_rmse\<close> are what \<^verbatim>\<open>find_result_attributes\<close> returned.
  The function returns the raster; the model returns with it the arrays as the loop
  leaves them, since the loop writes into them. Band names are not modelled.
\<close>

definition get_coefficients ::
  "int \<Rightarrow> result list list \<Rightarrow> nat \<Rightarrow> nat \<Rightarrow> int list \<Rightarrow> int list \<Rightarrow> bool \<Rightarrow> bool \<Rightarrow> bool \<Rightarrow> bool
   \<Rightarrow> real \<Rightarrow> error + real raster \<times> result list list"
where
  "get_coefficients date recs ysize xsize i_bands i_coefs use_rmse use_robust after before ndv =
     (let n_bands = length i_bands;
          n_coefs = length i_coefs;
          n_rmse = (if use_rmse then n_bands else 0);
          raster0 = replicate ysize (replicate xsize (replicate (n_bands * n_coefs + n_rmse) ndv))
      in foldM (\<lambda>(ras, seen) rec.
                  case foldM (coef_step use_robust use_rmse i_bands i_coefs) (ras, rec)
                             (find_indices rec date after before) of
                    Inl e \<Rightarrow> Inl e
                  | Inr (ras', rec') \<Rightarrow> Inr (ras', seen @ [rec']))
               (raster0, []) recs)"




section \<open>Prediction export (scripts/yatsm_map.py)\<close>

text \<open>
  Storing a float in the \<^verbatim>\<open>int16\<close> prediction raster: the value is truncated towards
  zero; within the 32-bit range the low 16 bits of that integer are kept, and
  outside it the conversion leaves 0.
\<close>

definition astype_int16 :: "real \<Rightarrow> 16 word" where
  "astype_int16 v =
     (let t = (if v < 0 then \<lceil>v\<rceil> else \<lfloor>v\<rfloor>)
      in if - (2 ^ 31) \<le> t \<and> t < 2 ^ 31 then word_of_int t else 0)"

text \<open>
  \<^verbatim>\<open>np.tensordot(c[:, i_bands], X, axes=(1, 0))\<close> for one record: the band columns
  are selected first, then each is summed against \<open>X\<close> over the coefficient axis; a
  \<^verbatim>\<open>ValueError\<close> when the two axes differ in length.
\<close>

definition predict_record :: "real list list \<Rightarrow> int list \<Rightarrow> real list \<Rightarrow> error + real list" where
  "predict_record c i_bands X =
     (case mapM (\<lambda>row. take_indices row i_bands) c of
        Inl e \<Rightarrow> Inl e
      | Inr sel \<Rightarrow>
          if length sel \<noteq> length X then Inl ValueError
          else Inr (map (\<lambda>j. \<Sum>k\<leftarrow>[0..<length X]. sel ! k ! j * X ! k) [0..<length i_bands]))"

text \<open>The body of the loop over the index arrays, for one index array.\<close>

definition pred_step ::
  "int list \<Rightarrow> real list \<Rightarrow> result list \<Rightarrow> (16 word) raster \<Rightarrow> nat list \<Rightarrow> error + (16 word) raster"
where
  "pred_step i_bands X rec ras index =
     (if index = [] then Inr ras
      else
        (case mapM (\<lambda>i. case predict_record (coef (rec ! i)) i_bands X of
                            Inl e \<Rightarrow> Inl e
                          | Inr vals \<Rightarrow>
                              Inr (unat (py (rec ! i)), unat (px (rec ! i)), map astype_int16 vals))
                   index of
           Inl e \<Rightarrow> Inl e
         | Inr ws \<Rightarrow> raster_assign 0 ras ws))"

text \<open>
  \<^verbatim>\<open>get_prediction\<close>. \<open>make_X\<close> (from \<^verbatim>\<open>yatsm.utils\<close>) builds the design row of the
  date and is an argument; the other arguments are as for \<open>get_coefficients\<close>. The
  raster is \<^verbatim>\<open>np.ones(.., dtype=np.int16) * int(ndv)\<close>, which is an \<^verbatim>\<open>int16\<close> array
  only for a no-data value in the \<^verbatim>\<open>int16\<close> range: the model is that of the export
  for such a value, and every statement about it carries this range as a
  hypothesis. The loop reads \<^verbatim>\<open>rec['coef']\<close> and writes the raster only.
\<close>

definition get_prediction ::
  "(int \<Rightarrow> real list) \<Rightarrow> int \<Rightarrow> result list list \<Rightarrow> nat \<Rightarrow> nat \<Rightarrow> int list \<Rightarrow> bool \<Rightarrow> bool \<Rightarrow> int
   \<Rightarrow> error + (16 word) raster"
where
  "get_prediction make_X date recs ysize xsize i_bands after before ndv =
     (let n_bands = length i_bands;
          X = make_X date;
          raster0 = replicate ysize (replicate xsize (replicate n_bands (word_of_int ndv)))
      in foldM (\<lambda>ras rec. foldM (pred_step i_bands X rec) ras (find_indices rec date after before))
               raster0 recs)"

text \<open>
  The prediction as the specification words it, \<^verbatim>\<open>y = coef . designRow(date)\<close>, for
  the band with Python index \<open>b\<close>.
\<close>

definition spec_inner_product :: "real list list \<Rightarrow> real list \<Rightarrow> int \<Rightarrow> real" where
  "spec_inner_product c x b = (\<Sum>k\<leftarrow>[0..<length x]. py_at (c ! k) b * x ! k)"

text \<open>
  The prediction of a record as the \<^verbatim>\<open>int16\<close> raster keeps it: for each exported band,
  the inner product of the stored coefficient matrix with the design row, converted
  by the store.
\<close>

definition stored_prediction :: "int list \<Rightarrow> real list \<Rightarrow> result \<Rightarrow> 16 word list" where
  "stored_prediction i_bands X r =
     map (\<lambda>b. astype_int16 (spec_inner_product (coef r) X b)) i_bands"

text \<open>
  The records that the two loops of an export visit, in the order of the visits: for
  each result array, for each index array of the lookup, the records at its indices.
\<close>

definition selected_records :: "result list list \<Rightarrow> int \<Rightarrow> bool \<Rightarrow> bool \<Rightarrow> result list" where
  "selected_records recs date after before =
     concat (map (\<lambda>rec. concat (map (map (\<lambda>i. rec ! i)) (find_indices rec date after before)))
                 recs)"

text \<open>
  The value of the pixel \<open>(y, x)\<close> after the records \<open>visited\<close> were written one
  after the other, each at its own pixel with the value \<open>val\<close> gives it: the value of
  the last of them at this pixel, and \<open>nodata\<close> when there is none.
\<close>

definition pixel_after :: "'v list \<Rightarrow> (result \<Rightarrow> 'v list) \<Rightarrow> result list \<Rightarrow> nat \<Rightarrow> nat \<Rightarrow> 'v list" where
  "pixel_after nodata val visited y x =
     (let vis = filter (\<lambda>r. unat (py r) = y \<and> unat (px r) = x) visited
      in if vis = [] then nodata else val (last vis))"

text \<open>
  What the raster loops keep true: the raster has its size, every pixel has \<open>n\<close>
  bands, and every pixel value is one that \<open>Q\<close> allows at its place.
\<close>

definition raster_inv ::
  "nat \<Rightarrow> nat \<Rightarrow> nat \<Rightarrow> (nat \<Rightarrow> nat \<Rightarrow> 'v list \<Rightarrow> bool) \<Rightarrow> 'v raster \<Rightarrow> bool"
where
  "raster_inv ysize xsize n Q ras \<longleftrightarrow>
     length ras = ysize \<and>
     (\<forall>y<ysize. length (ras ! y) = xsize \<and>
        (\<forall>x<xsize. length (ras ! y ! x) = n \<and> Q y x (ras ! y ! x)))"

section \<open>Training-data lookup (yatsm/cli/train_mult.py)\<close>

text \<open>
  The variables of the sample loop of \<^verbatim>\<open>get_training_inputs\<close>: the result array
  loaded last (\<^verbatim>\<open>rec\<close>), \<^verbatim>\<open>_row_previous\<close>, and the four output lists. \<^verbatim>\<open>rec\<close> is
  read only after a successful load, so its initial value is never seen.
\<close>

record train_state =
  cur_rec :: "result list"
  row_previous :: "nat option"
  X_out :: "real list list"
  out_y :: "int list"
  out_row :: "nat list"
  out_col :: "nat list"

text \<open>
  \<^verbatim>\<open>coef[0, :] = coef[0, :] + coef[1, :] * (start + end) / 2.0\<close> on the copy that
  \<^verbatim>\<open>rec[i]['coef'][0, :]\<close> is (indexing with an index array copies).
\<close>

definition rescale_intercept :: "result \<Rightarrow> error + real list list" where
  "rescale_intercept r =
     (let c = coef r
      in if length c < 2 then Inl IndexError
         else Inr (c[0 := map2 (\<lambda>a b. a + b * real_of_int (sint (start r + end_date r)) / 2)
                             (c ! 0) (c ! 1)]))"

text \<open>
  One iteration of the sample loop. \<open>load\<close> stands for \<^verbatim>\<open>np.load\<close> of the result file
  of a row (\<open>None\<close> when it cannot be opened). The result \<open>Inr None\<close> of the first
  stage is \<^verbatim>\<open>continue\<close>. \<^verbatim>\<open>get_mult_training_inputs\<close> has the same loop.
\<close>

definition training_sample ::
  "(nat \<Rightarrow> result list option) \<Rightarrow> bool \<Rightarrow> int \<Rightarrow> int \<Rightarrow> train_state \<Rightarrow> nat \<times> nat \<times> int
   \<Rightarrow> error + train_state"
where
  "training_sample load exit_on_missing training_start training_end st s =
     (case s of (row, col, y) \<Rightarrow>
        (case (if row_previous st \<noteq> Some row
               then (case load row of
                       Some r \<Rightarrow> Inr (Some (st\<lparr>cur_rec := r, row_previous := Some row\<rparr>))
                     | None \<Rightarrow> if exit_on_missing then Inl IOError else Inr None)
               else Inr (Some st)) of
           Inl e \<Rightarrow> Inl e
         | Inr None \<Rightarrow> Inr st
         | Inr (Some st1) \<Rightarrow>
             (let i = np_where (\<lambda>r. sint (start r) < training_start \<and>
                                     sint (end_date r) > training_end \<and>
                                     uint (px r) = int col) (cur_rec st1)
              in if length i = 0 then Inr st1
                 else if length i > 1 then Inl TrainingDataException
                 else
                   (case rescale_intercept (cur_rec st1 ! hd i) of
                      Inl e \<Rightarrow> Inl e
                    | Inr c \<Rightarrow>
                        Inr (st1\<lparr>X_out := X_out st1 @ [concat c @ rmse (cur_rec st1 ! hd i)],
                                 out_y := out_y st1 @ [y],
                                 out_row := out_row st1 @ [row],
                                 out_col := out_col st1 @ [col]\<rparr>)))))"

text \<open>
  \<^verbatim>\<open>get_training_inputs\<close>: the loop over the samples \<open>(row, col, y)\<close> of the training
  image; an exception leaves the function.
\<close>

definition train_state0 :: train_state where
  "train_state0 = \<lparr>cur_rec = [], row_previous = None, X_out = [], out_y = [],
                   out_row = [], out_col = []\<rparr>"

definition get_training_inputs ::
  "(nat \<Rightarrow> result list option) \<Rightarrow> (nat \<times> nat \<times> int) list \<Rightarrow> int \<Rightarrow> int \<Rightarrow> bool
   \<Rightarrow> error + real list list \<times> int list \<times> nat list \<times> nat list"
where
  "get_training_inputs load samples training_start training_end exit_on_missing =
     (case foldM (training_sample load exit_on_missing training_start training_end)
                 train_state0 samples of
        Inl e \<Rightarrow> Inl e
      | Inr st \<Rightarrow> Inr (X_out st, out_y st, out_row st, out_col st))"

section \<open>The change detector and the record store\<close>

text \<open>
  Modelled from the spec: the Change Detector (state machine of section 4.4) and the
  Record Store (section 4.5), that is, the algorithm class that emits the segment
  records; only its base class is among the sources. The Segment Fitter and the test
  of one observation against the threshold are arguments (\<open>fit\<close>, \<open>None\<close> for a
  \<open>FitFailure\<close>, and \<open>exceeds\<close>); dates are ordinal day integers. The optional
  policies layered onto the base state machine are not modelled, and the pixel
  coordinates, carried through for output mapping only, are left out of the record.
\<close>

datatype detector_mode = ACCUMULATING | MONITORING | DONE

type_synonym observation = "int \<times> real list"

type_synonym fitted = "real list list \<times> real list"

record segment_record =
  sr_start :: int
  sr_end :: int
  sr_break :: int
  sr_coef :: "real list list"
  sr_rmse :: "real list"

record detector_config =
  min_obs :: nat
  consecutive :: nat
  max_retries :: nat
  refit :: bool
  fit :: "observation list \<Rightarrow> fitted option"
  exceeds :: "fitted \<Rightarrow> observation \<Rightarrow> bool"

text \<open>
  Modelled from the spec: the Model State of section 3, which belongs to the missing
  change detector. The state of one pixel: the window of incorporated observations,
  the current fit, the run of consecutive observations above the threshold, the
  count of failed fits, and the record store (append only).
\<close>

record detector_state =
  mode :: detector_mode
  window :: "observation list"
  model :: fitted
  run :: "observation list"
  retries :: nat
  records :: "segment_record list"

definition detector_init :: detector_state where
  "detector_init = \<lparr>mode = ACCUMULATING, window = [], model = ([], []), run = [],
                     retries = 0, records = []\<rparr>"

text \<open>
  Modelled from the spec: the creation of a Segment Record by the missing change
  detector. The record of the current window: it starts at the first incorporated
  observation and ends at the date \<open>e\<close>; nothing is emitted for an empty window.
\<close>

definition emit :: "detector_state \<Rightarrow> int \<Rightarrow> int \<Rightarrow> segment_record list" where
  "emit st e b =
     (case window st of
        [] \<Rightarrow> records st
      | w # ws \<Rightarrow> records st @
          [\<lparr>sr_start = fst w, sr_end = e, sr_break = b,
            sr_coef = fst (model st), sr_rmse = snd (model st)\<rparr>])"

text \<open>
  Modelled from the spec: the transitions of the missing change detector (section
  4.4) for one observation. \<open>ACCUMULATING\<close>: the observation joins the window; with
  \<open>min_obs\<close> observations a fit is tried, and a failed fit is retried with one more
  observation, up to \<open>max_retries\<close> times, after which the rest of the series is
  abandoned. \<open>MONITORING\<close>: an observation below the threshold is incorporated (and
  the model refitted if the policy says so); one above it extends the run, and the
  run of \<open>consecutive\<close> observations closes the segment: the break is the date of the
  first observation of the run, the segment ends at the last incorporated
  observation, the one immediately before the break, and the next window starts with
  the run.
\<close>

definition detect_step :: "detector_config \<Rightarrow> detector_state \<Rightarrow> observation \<Rightarrow> detector_state" where
  "detect_step cfg st ob =
     (case mode st of
        DONE \<Rightarrow> st
      | ACCUMULATING \<Rightarrow>
          (let w = window st @ [ob]
           in if length w < min_obs cfg then st\<lparr>window := w\<rparr>
              else (case fit cfg w of
                      Some m \<Rightarrow> st\<lparr>mode := MONITORING, window := w, model := m, retries := 0\<rparr>
                    | None \<Rightarrow>
                        if retries st \<ge> max_retries cfg then st\<lparr>mode := DONE\<rparr>
                        else st\<lparr>window := w, retries := retries st + 1\<rparr>))
      | MONITORING \<Rightarrow>
          if exceeds cfg (model st) ob
          then (let r = run st @ [ob]
                in if length r < consecutive cfg then st\<lparr>run := r\<rparr>
                   else st\<lparr>mode := ACCUMULATING,
                           records := emit st (fst (last (window st))) (fst (hd r)),
                           window := r, run := [], retries := 0\<rparr>)
          else (let w = window st @ [ob]
                in st\<lparr>window := w, run := [],
                      model := (if refit cfg
                                then (case fit cfg w of Some m \<Rightarrow> m | None \<Rightarrow> model st)
                                else model st)\<rparr>))"

text \<open>
  Modelled from the spec: the transition to \<open>DONE\<close> of the missing change detector
  (sections 4.4 and 8). At the end of the series a monitored window gives the final
  record, with break 0 and ending at the last observation; a window still
  accumulating is discarded.
\<close>

definition detect_finish :: "detector_state \<Rightarrow> detector_state" where
  "detect_finish st =
     (case mode st of
        MONITORING \<Rightarrow>
          st\<lparr>mode := DONE, records := emit st (fst (last (window st @ run st))) 0\<rparr>
      | ACCUMULATING \<Rightarrow> st\<lparr>mode := DONE\<rparr>
      | DONE \<Rightarrow> st)"

text \<open>
  Modelled from the spec: the missing per-pixel detector as a function (sections 5
  and 7), from the time-ordered observations to the sequence of records; a
  non-positive \<open>consecutive\<close> is a configuration error, raised before processing
  begins.
\<close>

definition detect :: "detector_config \<Rightarrow> observation list \<Rightarrow> error + segment_record list" where
  "detect cfg obs =
     (if consecutive cfg = 0 then Inl ConfigurationError
      else Inr (records (detect_finish (foldl (detect_step cfg) detector_init obs))))"

text \<open>What the loop keeps true, with the observations still to come.\<close>

definition ordered_records :: "segment_record list \<Rightarrow> bool" where
  "ordered_records rs \<longleftrightarrow>
     (\<forall>r \<in> set rs. sr_start r \<le> sr_end r) \<and>
     (\<forall>i. Suc i < length rs \<longrightarrow> sr_end (rs ! i) \<le> sr_start (rs ! Suc i))"

definition detector_inv :: "detector_state \<Rightarrow> observation list \<Rightarrow> bool" where
  "detector_inv st rest \<longleftrightarrow>
     sorted (map fst (window st @ run st @ rest)) \<and>
     (mode st = MONITORING \<longrightarrow> window st \<noteq> []) \<and>
     (run st \<noteq> [] \<longrightarrow> mode st = MONITORING) \<and>
     ordered_records (records st) \<and>
     (\<forall>d \<in> set (map fst (window st @ run st @ rest)).
        records st \<noteq> [] \<longrightarrow> sr_end (last (records st)) \<le> d)"

section \<open>Properties of the model base class\<close>

text \<open>What a successful construction has done, read off the definition.\<close>

lemma YATSM_init_Inr:
  assumes "YATSM_init nxt fi di ti kw = Inr m"
  shows "\<exists>sl nfit.
           map_of (term_name_slices di) ''x'' = Some sl \<and>
           py_len (np_asarray fi) = Inr nfit \<and>
           nxt kw = Inr () \<and>
           m = \<lparr>fit_indices = np_asarray fi, design_info = di, i_x = fst sl,
                test_indices = (if is_None (np_asarray ti) then np_asarray fi else np_asarray ti),
                record_template =
                  [\<lparr>start = 0, end_date = 0, break = 0,
                    coef = replicate (length (column_names di)) (replicate nfit 0),
                    px = word_of_int (kwargs_get kw ''px'' 0),
                    py = word_of_int (kwargs_get kw ''py'' 0)\<rparr>],
                n_record = 0,
                record_array =
                  [\<lparr>start = 0, end_date = 0, break = 0,
                    coef = replicate (length (column_names di)) (replicate nfit 0),
                    px = word_of_int (kwargs_get kw ''px'' 0),
                    py = word_of_int (kwargs_get kw ''py'' 0)\<rparr>]\<rparr>"
  using assms
  by (auto simp: YATSM_init_def Let_def np_zeros_record_def split: option.splits sum.splits)

lemma YATSM_init_no_slope:
  assumes "map_of (term_name_slices di) ''x'' = None"
  shows "YATSM_init nxt fi di ti kw = Inl AttributeError"
  using assms by (simp add: YATSM_init_def Let_def)

lemma YATSM_init_succeeds:
  assumes "map_of (term_name_slices di) ''x'' = Some sl"
    and "py_len (np_asarray fi) = Inr nfit"
    and "nxt kw = Inr ()"
  shows "\<exists>m. YATSM_init nxt fi di ti kw = Inr m \<and> i_x m = fst sl"
  using assms by (simp add: YATSM_init_def Let_def)

text \<open>
  C4, as stated, fails: a design without the term \<open>x\<close> makes the constructor raise
  \<^verbatim>\<open>AttributeError\<close>, not a \<^verbatim>\<open>ConfigurationError\<close>.
\<close>

theorem YATSM_init_no_slope_counterexample:
  "YATSM_init object_init (PySeq [0, 1])
     \<lparr>column_names = [''Intercept''], term_name_slices = [(''Intercept'', 0, 1)]\<rparr>
     PyNone [] = Inl AttributeError
   \<and> YATSM_init object_init (PySeq [0, 1])
     \<lparr>column_names = [''Intercept''], term_name_slices = [(''Intercept'', 0, 1)]\<rparr>
     PyNone [] \<noteq> Inl ConfigurationError"
  by (simp add: YATSM_init_def)

text \<open>
  C4, amended: when the design information has no term named \<open>x\<close>, construction fails
  with \<^verbatim>\<open>AttributeError\<close>, whatever the other arguments and before the record
  template is built; when the term is present, \<^verbatim>\<open>fit_indices\<close> is a sized sequence and
  the next initializer accepts the keyword arguments, construction succeeds and the
  model's \<open>i_x\<close> is the first column of the slice of \<open>x\<close>.
\<close>

theorem YATSM_init_slope_term:
  "(''x'' \<notin> set (map fst (term_name_slices di)) \<longrightarrow>
      YATSM_init nxt fi di ti kw = Inl AttributeError) \<and>
   (\<forall>sl nfit. map_of (term_name_slices di) ''x'' = Some sl \<and>
              py_len (np_asarray fi) = Inr nfit \<and> nxt kw = Inr () \<longrightarrow>
      (\<exists>m. YATSM_init nxt fi di ti kw = Inr m \<and> i_x m = fst sl))"
proof (intro conjI impI allI)
  assume "''x'' \<notin> set (map fst (term_name_slices di))"
  then have "map_of (term_name_slices di) ''x'' = None"
    by (simp add: map_of_eq_None_iff)
  then show "YATSM_init nxt fi di ti kw = Inl AttributeError"
    by (rule YATSM_init_no_slope)
next
  fix sl nfit
  assume "map_of (term_name_slices di) ''x'' = Some sl \<and>
          py_len (np_asarray fi) = Inr nfit \<and> nxt kw = Inr ()"
  then show "\<exists>m. YATSM_init nxt fi di ti kw = Inr m \<and> i_x m = fst sl"
    using YATSM_init_succeeds by blast
qed

theorem YATSM_init_slope_term_witness:
  "YATSM_init object_init (PySeq [0, 1])
     \<lparr>column_names = [''Intercept''], term_name_slices = [(''Intercept'', 0, 1)]\<rparr>
     PyNone [] = Inl AttributeError
   \<and> (\<exists>m. YATSM_init object_init (PySeq [0, 1])
            \<lparr>column_names = [''Intercept'', ''x''],
             term_name_slices = [(''Intercept'', 0, 1), (''x'', 1, 2)]\<rparr>
            PyNone [] = Inr m \<and> i_x m = 1)"
  using
    YATSM_init_slope_term [of
      "\<lparr>column_names = [''Intercept''], term_name_slices = [(''Intercept'', 0, 1)]\<rparr>"
      object_init "PySeq [0, 1]" PyNone "[]"]
    YATSM_init_slope_term [of
      "\<lparr>column_names = [''Intercept'', ''x''],
        term_name_slices = [(''Intercept'', 0, 1), (''x'', 1, 2)]\<rparr>"
      object_init "PySeq [0, 1]" PyNone "[]"]
  by (simp add: object_init_def)

text \<open>
  C8: after a successful construction, the record template holds one record, and the
  \<open>coef\<close> entry of every record of the template and of the record array has one row
  per design column and, in every row, one entry per fit index.
\<close>

theorem record_template_coef_shape:
  assumes "YATSM_init nxt fi di ti kw = Inr m"
  shows "length (record_template m) = 1 \<and>
         (\<forall>r \<in> set (record_template m) \<union> set (record_array m).
            length (coef r) = length (column_names (design_info m)) \<and>
            (\<forall>row \<in> set (coef r). py_len (fit_indices m) = Inr (length row)))"
  using YATSM_init_Inr [OF assms] by auto

theorem record_template_coef_shape_witness:
  "\<exists>m. YATSM_init object_init (PySeq [2, 3, 4])
          \<lparr>column_names = [''Intercept'', ''x''],
           term_name_slices = [(''Intercept'', 0, 1), (''x'', 1, 2)]\<rparr>
          PyNone [] = Inr m \<and>
        map coef (record_template m) = [[[0, 0, 0], [0, 0, 0]]] \<and>
        length (record_template m) = 1 \<and>
        (\<forall>r \<in> set (record_template m) \<union> set (record_array m).
           length (coef r) = length (column_names (design_info m)) \<and>
           (\<forall>row \<in> set (coef r). py_len (fit_indices m) = Inr (length row)))"
proof -
  obtain m where m: "YATSM_init object_init (PySeq [2, 3, 4])
          \<lparr>column_names = [''Intercept'', ''x''],
           term_name_slices = [(''Intercept'', 0, 1), (''x'', 1, 2)]\<rparr>
          PyNone [] = Inr m"
    by (simp add: YATSM_init_def object_init_def Let_def)
  have "map coef (record_template m) = [[[0, 0, 0], [0, 0, 0]]]"
    using m by (auto simp: YATSM_init_def object_init_def np_zeros_record_def Let_def
        numeral_3_eq_3)
  moreover note s = record_template_coef_shape [OF m]
  ultimately show ?thesis
    by (intro exI [of _ m] conjI m conjunct1 [OF s] conjunct2 [OF s])
qed

text \<open>
  C9 fails on the code: with \<^verbatim>\<open>test_indices\<close> omitted, \<^verbatim>\<open>np.asarray(None)\<close> is stored,
  the test \<^verbatim>\<open>is None\<close> on that array is false, and the attribute stays a 0-d object
  array instead of the fit indices.
\<close>

theorem test_indices_default_not_fit_indices:
  "(case YATSM_init object_init (PySeq [0, 1])
           \<lparr>column_names = [''Intercept'', ''x''],
            term_name_slices = [(''Intercept'', 0, 1), (''x'', 1, 2)]\<rparr>
           PyNone [] of
      Inl e \<Rightarrow> None
    | Inr m \<Rightarrow> Some (test_indices m, fit_indices m))
   = Some (NdArray0d_None, NdArray [0, 1])"
  by (simp add: YATSM_init_def object_init_def is_None_def Let_def)

text \<open>
  C10: right after a successful construction the record array holds exactly one
  record: \<^verbatim>\<open>__len__\<close> is 1, and iteration yields one record with \<open>start\<close>, \<open>end\<close> and
  \<open>break\<close> zero, whose \<open>px\<close> and \<open>py\<close> are the keyword arguments of these names
  (0 when absent), as stored in a \<^verbatim>\<open>u2\<close> field.
\<close>

theorem YATSM_init_one_zero_record:
  assumes "YATSM_init nxt fi di ti kw = Inr m"
  shows "YATSM_len m = 1 \<and>
         (\<exists>r. YATSM_iter m = [r] \<and> start r = 0 \<and> end_date r = 0 \<and> break r = 0 \<and>
              px r = word_of_int (kwargs_get kw ''px'' 0) \<and>
              py r = word_of_int (kwargs_get kw ''py'' 0))"
  using YATSM_init_Inr [OF assms] by (auto simp: YATSM_len_def YATSM_iter_def)

theorem YATSM_init_one_zero_record_witness:
  "\<exists>m. YATSM_init (\<lambda>kw. Inr ()) (PySeq [0, 1])
          \<lparr>column_names = [''Intercept'', ''x''],
           term_name_slices = [(''Intercept'', 0, 1), (''x'', 1, 2)]\<rparr>
          PyNone [(''px'', 7)] = Inr m \<and>
        YATSM_len m = 1 \<and>
        (\<exists>r. YATSM_iter m = [r] \<and> start r = 0 \<and> end_date r = 0 \<and> break r = 0 \<and>
             px r = 7 \<and> py r = 0)"
proof -
  obtain m where m: "YATSM_init (\<lambda>kw. Inr ()) (PySeq [0, 1])
          \<lparr>column_names = [''Intercept'', ''x''],
           term_name_slices = [(''Intercept'', 0, 1), (''x'', 1, 2)]\<rparr>
          PyNone [(''px'', 7)] = Inr m"
    by (simp add: YATSM_init_def Let_def)
  from YATSM_init_one_zero_record [OF m] m show ?thesis
    by (auto simp: kwargs_get_def)
qed

section \<open>Properties of the date-based lookup\<close>

lemma set_np_where: "set (np_where P xs) = {i. i < length xs \<and> P (xs ! i)}"
  by (auto simp: np_where_def)

lemma distinct_np_where: "distinct (np_where P xs)"
  by (simp add: np_where_def)

lemma sorted_np_where: "sorted (np_where P xs)"
  by (simp add: np_where_def sorted_wrt_filter)

lemma first_occurrence_props:
  "v \<in> set ar \<Longrightarrow>
     first_occurrence ar v < length ar \<and> ar ! first_occurrence ar v = v \<and>
     (\<forall>j < first_occurrence ar v. ar ! j \<noteq> v)"
proof (induction ar)
  case Nil
  then show ?case by simp
next
  case (Cons a ar)
  show ?case
  proof (cases "a = v")
    case True
    then show ?thesis by simp
  next
    case False
    with Cons have IH: "first_occurrence ar v < length ar \<and> ar ! first_occurrence ar v = v \<and>
     (\<forall>j < first_occurrence ar v. ar ! j \<noteq> v)" by simp
    show ?thesis using False IH
      by (auto simp: nth_Cons split: nat.splits)
  qed
qed

lemma first_occurrence_least:
  assumes "k < length ar" "\<forall>j<k. ar ! j \<noteq> ar ! k"
  shows "first_occurrence ar (ar ! k) = k"
proof -
  have v: "ar ! k \<in> set ar" using assms(1) by simp
  note p = first_occurrence_props [OF v]
  have "\<not> first_occurrence ar (ar ! k) < k" using p assms(2) by auto
  moreover have "\<not> k < first_occurrence ar (ar ! k)" using p by auto
  ultimately show ?thesis by simp
qed

lemma set_np_unique_return_index:
  "set (np_unique_return_index ar) = {k. k < length ar \<and> (\<forall>j<k. ar ! j \<noteq> ar ! k)}"
proof (intro set_eqI iffI)
  fix k assume "k \<in> set (np_unique_return_index ar)"
  then obtain v where v: "v \<in> set ar" and k: "k = first_occurrence ar v"
    by (auto simp: np_unique_return_index_def)
  from first_occurrence_props [OF v] k
  show "k \<in> {k. k < length ar \<and> (\<forall>j<k. ar ! j \<noteq> ar ! k)}" by auto
next
  fix k assume "k \<in> {k. k < length ar \<and> (\<forall>j<k. ar ! j \<noteq> ar ! k)}"
  then have a: "k < length ar" and b: "\<forall>j<k. ar ! j \<noteq> ar ! k" by auto
  have "first_occurrence ar (ar ! k) = k" by (rule first_occurrence_least [OF a b])
  moreover have "ar ! k \<in> set (sort (remdups ar))" using a by simp
  ultimately show "k \<in> set (np_unique_return_index ar)"
    unfolding np_unique_return_index_def by (metis image_eqI set_map)
qed

lemma nth_np_unique_return_index:
  "map (\<lambda>k. ar ! k) (np_unique_return_index ar) = sort (remdups ar)"
proof -
  have "\<forall>v \<in> set (sort (remdups ar)). ar ! first_occurrence ar v = v"
    by (simp add: first_occurrence_props)
  then have "map ((!) ar \<circ> first_occurrence ar) (sort (remdups ar)) = sort (remdups ar)"
    by (intro map_idI) simp
  then show ?thesis
    unfolding np_unique_return_index_def by simp
qed

lemma sorted_nth_less:
  assumes "sorted xs" "distinct xs" "j < length xs" "k < length xs"
  shows "xs ! j < xs ! k \<longleftrightarrow> j < (k::nat)"
  using assms
  by (metis nth_eq_iff_index_eq order_less_le sorted_nth_mono leD leI)

lemma after_index_set:
  fixes f :: "nat \<Rightarrow> 'b::linorder"
  assumes srt: "sorted index" and dst: "distinct index"
  shows "set (map (\<lambda>j. index ! j) (np_unique_return_index (map f index))) =
         {i. i \<in> set index \<and> (\<forall>j \<in> set index. j < i \<longrightarrow> f j \<noteq> f i)}"
    (is "?L = ?R")
proof (intro set_eqI iffI)
  fix i assume "i \<in> ?L"
  then obtain k where k: "k < length index" "\<forall>j<k. f (index ! j) \<noteq> f (index ! k)"
      and i: "i = index ! k"
    by (auto simp: set_np_unique_return_index)
  have "\<forall>j \<in> set index. j < i \<longrightarrow> f j \<noteq> f i"
  proof (intro ballI impI)
    fix j assume j: "j \<in> set index" "j < i"
    then obtain l where l: "l < length index" "j = index ! l" by (auto simp: in_set_conv_nth)
    with j i k have "l < k" using sorted_nth_less [OF srt dst l(1) k(1)] by simp
    with k l i show "f j \<noteq> f i" by simp
  qed
  with i k show "i \<in> ?R" by simp
next
  fix i assume "i \<in> ?R"
  then have i: "i \<in> set index" and fi: "\<forall>j \<in> set index. j < i \<longrightarrow> f j \<noteq> f i" by auto
  then obtain k where k: "k < length index" "i = index ! k" by (auto simp: in_set_conv_nth)
  have "\<forall>j<k. f (index ! j) \<noteq> f (index ! k)"
  proof (intro allI impI)
    fix j assume j: "j < k"
    then have jl: "j < length index" using k by simp
    have "index ! j < index ! k" using sorted_nth_less [OF srt dst jl k(1)] j by simp
    with fi k jl show "f (index ! j) \<noteq> f (index ! k)" by simp
  qed
  with k have "k \<in> set (np_unique_return_index (map f index))"
    by (simp add: set_np_unique_return_index)
  with k show "i \<in> ?L" by auto
qed

lemma after_index_px:
  fixes f :: "nat \<Rightarrow> 'b::linorder"
  shows "map f (map (\<lambda>j. index ! j) (np_unique_return_index (map f index))) = sort (remdups (map f index))"
proof -
  have "set (np_unique_return_index (map f index)) \<subseteq> {..<length index}"
    by (auto simp: set_np_unique_return_index)
  then have "map f (map (\<lambda>j. index ! j) (np_unique_return_index (map f index)))
      = map (\<lambda>k. (map f index) ! k) (np_unique_return_index (map f index))"
    by (auto simp: subset_iff)
  then show ?thesis by (simp only: nth_np_unique_return_index)
qed


text \<open>
  C6: the lookup yields, in this order, the \<open>before\<close> indices when requested (exactly
  the records with \<open>end \<le> date\<close> and \<open>break = 0\<close>), the \<open>after\<close> indices when
  requested (of the records with \<open>start \<ge> date\<close>, the first in the array for each
  pixel x-coordinate, one per coordinate, by ascending coordinate), and always last
  the indices of the records with \<open>start \<le> date \<le> end\<close>.
\<close>

theorem find_indices_order:
  "\<exists>B A I.
     find_indices rec date after before =
       (if before then [B] else []) @ (if after then [A] else []) @ [I] \<and>
     set B = {i. i < length rec \<and> sint (end_date (rec ! i)) \<le> date \<and> break (rec ! i) = 0} \<and>
     set A = {i. i < length rec \<and> date \<le> sint (start (rec ! i)) \<and>
                 (\<forall>j<i. date \<le> sint (start (rec ! j)) \<longrightarrow> px (rec ! j) \<noteq> px (rec ! i))} \<and>
     set I = {i. i < length rec \<and> sint (start (rec ! i)) \<le> date \<and> date \<le> sint (end_date (rec ! i))} \<and>
     distinct B \<and> distinct (map (\<lambda>i. px (rec ! i)) A) \<and> sorted (map (\<lambda>i. px (rec ! i)) A) \<and> distinct I"
proof -
  define B where "B = np_where (\<lambda>r. sint (end_date r) \<le> date \<and> break r = 0) rec"
  define index where "index = np_where (\<lambda>r. sint (start r) \<ge> date) rec"
  define A where "A = map (\<lambda>j. index ! j) (np_unique_return_index (map (\<lambda>i. px (rec ! i)) index))"
  define I where "I = np_where (\<lambda>r. sint (start r) \<le> date \<and> sint (end_date r) \<ge> date) rec"
  have eq: "find_indices rec date after before =
       (if before then [B] else []) @ (if after then [A] else []) @ [I]"
    by (simp add: find_indices_def B_def A_def index_def I_def Let_def)
  have sB: "set B = {i. i < length rec \<and> sint (end_date (rec ! i)) \<le> date \<and> break (rec ! i) = 0}"
    by (simp add: B_def set_np_where)
  have sI: "set I = {i. i < length rec \<and> sint (start (rec ! i)) \<le> date \<and> date \<le> sint (end_date (rec ! i))}"
    by (simp add: I_def set_np_where)
  have si: "set index = {i. i < length rec \<and> date \<le> sint (start (rec ! i))}"
    by (simp add: index_def set_np_where)
  have "set A = {i. i \<in> set index \<and> (\<forall>j \<in> set index. j < i \<longrightarrow> px (rec ! j) \<noteq> px (rec ! i))}"
    unfolding A_def
    by (rule after_index_set) (simp_all add: index_def sorted_np_where distinct_np_where)
  then have sA: "set A = {i. i < length rec \<and> date \<le> sint (start (rec ! i)) \<and>
                 (\<forall>j<i. date \<le> sint (start (rec ! j)) \<longrightarrow> px (rec ! j) \<noteq> px (rec ! i))}"
    unfolding si by auto
  have pA: "map (\<lambda>i. px (rec ! i)) A = sort (remdups (map (\<lambda>i. px (rec ! i)) index))"
    unfolding A_def by (rule after_index_px)
  have dA: "distinct (map (\<lambda>i. px (rec ! i)) A)" and oA: "sorted (map (\<lambda>i. px (rec ! i)) A)"
    unfolding pA by simp_all
  have dB: "distinct B" and dI: "distinct I"
    by (simp_all add: B_def I_def distinct_np_where)
  from eq sB sA sI dB dA oA dI show ?thesis by blast
qed

theorem find_indices_order_witness:
  "(let rec = [\<lparr>start = 0, end_date = 10, break = 0, coef = [], px = 0, py = 0\<rparr>,
               \<lparr>start = 11, end_date = 20, break = 0, coef = [], px = 0, py = 0\<rparr>,
               \<lparr>start = 11, end_date = 30, break = 0, coef = [], px = 1, py = 0\<rparr>,
               \<lparr>start = 31, end_date = 40, break = 0, coef = [], px = 1, py = 0\<rparr>]
    in find_indices rec 10 True True = [[0], [1, 2], [0]] \<and>
       set [1, 2] =
         {i. i < length rec \<and> 10 \<le> sint (start (rec ! i)) \<and>
             (\<forall>j<i. 10 \<le> sint (start (rec ! j)) \<longrightarrow> px (rec ! j) \<noteq> px (rec ! i))})"
proof -
  let ?rec = "[\<lparr>start = 0, end_date = 10, break = 0, coef = [], px = 0, py = 0\<rparr>,
               \<lparr>start = 11, end_date = 20, break = 0, coef = [], px = 0, py = 0\<rparr>,
               \<lparr>start = 11, end_date = 30, break = 0, coef = [], px = 1, py = 0\<rparr>,
               \<lparr>start = 31, end_date = 40, break = 0, coef = [], px = 1, py = 0\<rparr>]
              :: segment list"
  have ev: "find_indices ?rec 10 True True = [[0], [1, 2], [0]]"
    by (simp add: find_indices_def np_where_def np_unique_return_index_def Let_def upt_rec)
  obtain B A I where
    eq: "find_indices ?rec 10 True True =
           (if True then [B] else []) @ (if True then [A] else []) @ [I]"
    and sA: "set A = {i. i < length ?rec \<and> 10 \<le> sint (start (?rec ! i)) \<and>
                 (\<forall>j<i. 10 \<le> sint (start (?rec ! j)) \<longrightarrow> px (?rec ! j) \<noteq> px (?rec ! i))}"
    using find_indices_order [of ?rec 10 True True] by blast
  have "[[0], [1, 2], [0]] = (if True then [B] else []) @ (if True then [A] else []) @ [I]"
    by (rule trans [OF ev [symmetric] eq])
  then have A: "A = [1, 2]" by simp
  note sA' = sA [unfolded A]
  show ?thesis
    unfolding Let_def by (intro conjI ev sA')
qed


section \<open>Properties of the change detector\<close>

lemma ordered_records_snoc:
  assumes "ordered_records rs" "sr_start r \<le> sr_end r"
    and "rs \<noteq> [] \<longrightarrow> sr_end (last rs) \<le> sr_start r"
  shows "ordered_records (rs @ [r])"
  unfolding ordered_records_def
proof (intro conjI ballI allI impI)
  fix q assume "q \<in> set (rs @ [r])"
  with assms(1,2) show "sr_start q \<le> sr_end q" by (auto simp: ordered_records_def)
next
  fix i assume i: "Suc i < length (rs @ [r])"
  show "sr_end ((rs @ [r]) ! i) \<le> sr_start ((rs @ [r]) ! Suc i)"
  proof (cases "Suc i < length rs")
    case True
    with assms(1) show ?thesis by (simp add: ordered_records_def nth_append)
  next
    case False
    with i have e: "Suc i = length rs" by simp
    then have "rs \<noteq> []" by auto
    moreover have "last rs = rs ! i" using e by (metis \<open>rs \<noteq> []\<close> diff_Suc_1 last_conv_nth)
    ultimately show ?thesis using assms(3) e by (simp add: nth_append)
  qed
qed

lemma sorted_hd_le_last:
  "sorted (map fst xs) \<Longrightarrow> xs \<noteq> [] \<Longrightarrow> fst (hd xs) \<le> fst (last xs)"
proof -
  assume s: "sorted (map fst xs)" and n: "xs \<noteq> []"
  have "hd xs \<in> set xs" "last xs \<in> set xs" using n by simp_all
  have "map fst xs ! 0 \<le> map fst xs ! (length xs - 1)"
    using s n by (intro sorted_nth_mono) simp_all
  then show ?thesis using n by (simp add: hd_conv_nth last_conv_nth)
qed

lemma emit_ordered:
  assumes "ordered_records (records st)"
    and "window st \<noteq> [] \<longrightarrow> fst (hd (window st)) \<le> e"
    and "\<forall>d \<in> set (map fst (window st)). records st \<noteq> [] \<longrightarrow> sr_end (last (records st)) \<le> d"
  shows "ordered_records (emit st e b)"
proof (cases "window st")
  case Nil
  with assms(1) show ?thesis by (simp add: emit_def)
next
  case (Cons w ws)
  with assms have "ordered_records (records st @
          [\<lparr>sr_start = fst w, sr_end = e, sr_break = b,
            sr_coef = fst (model st), sr_rmse = snd (model st)\<rparr>])"
    by (intro ordered_records_snoc) auto
  with Cons show ?thesis by (simp add: emit_def)
qed

lemma emit_last:
  "window st \<noteq> [] \<Longrightarrow> emit st e b \<noteq> [] \<and> sr_end (last (emit st e b)) = e"
  by (cases "window st") (auto simp: emit_def)

lemma detect_step_inv:
  assumes "detector_inv st (ob # rest)"
  shows "detector_inv (detect_step cfg st ob) rest"
proof (cases "mode st")
  case DONE
  with assms show ?thesis
    by (auto simp: detector_inv_def detect_step_def sorted_append)
next
  case ACCUMULATING
  with assms have r: "run st = []" by (auto simp: detector_inv_def)
  with assms ACCUMULATING show ?thesis
    by (auto simp: detector_inv_def detect_step_def Let_def sorted_append split: option.splits)
next
  case MONITORING
  with assms have w: "window st \<noteq> []" by (auto simp: detector_inv_def)
  from assms have srt: "sorted (map fst (window st @ run st @ ob # rest))"
    and ord: "ordered_records (records st)"
    and lst: "\<forall>d \<in> set (map fst (window st @ run st @ ob # rest)).
        records st \<noteq> [] \<longrightarrow> sr_end (last (records st)) \<le> d"
    by (auto simp: detector_inv_def)
  show ?thesis
  proof (cases "exceeds cfg (model st) ob")
    case False
    with MONITORING srt ord lst show ?thesis
      by (auto simp: detector_inv_def detect_step_def Let_def sorted_append)
  next
    case True
    show ?thesis
    proof (cases "length (run st @ [ob]) < consecutive cfg")
      case short: True
      with True MONITORING srt ord lst w show ?thesis
        by (auto simp: detector_inv_def detect_step_def Let_def sorted_append)
    next
      case closing: False
      let ?e = "fst (last (window st))"
      let ?r = "run st @ [ob]"
      have st': "detect_step cfg st ob = st\<lparr>mode := ACCUMULATING,
                           records := emit st ?e (fst (hd ?r)),
                           window := ?r, run := [], retries := 0\<rparr>"
        using True closing MONITORING by (simp add: detect_step_def Let_def)
      have hl: "fst (hd (window st)) \<le> ?e"
        using srt w by (intro sorted_hd_le_last) (simp_all add: sorted_append)
      have o: "ordered_records (emit st ?e (fst (hd ?r)))"
        using ord hl lst by (intro emit_ordered) auto
      have el: "emit st ?e (fst (hd ?r)) \<noteq> [] \<and> sr_end (last (emit st ?e (fst (hd ?r)))) = ?e"
        using w by (rule emit_last)
      have "last (window st) \<in> set (window st)" using w by simp
      then have bound: "\<forall>d \<in> set (map fst (?r @ rest)). ?e \<le> d"
        using srt by (auto simp: sorted_append)
      have s': "sorted (map fst (?r @ rest))" using srt by (simp add: sorted_append)
      show ?thesis
        unfolding st' detector_inv_def using o el bound s' by simp
    qed
  qed
qed

lemma foldl_detect_step_inv:
  "detector_inv st (obs @ rest) \<Longrightarrow> detector_inv (foldl (detect_step cfg) st obs) rest"
proof (induction obs arbitrary: st)
  case Nil
  then show ?case by simp
next
  case (Cons ob obs)
  then show ?case by (simp add: detect_step_inv)
qed

lemma detect_finish_ordered:
  assumes "detector_inv st []"
  shows "ordered_records (records (detect_finish st))"
proof (cases "mode st")
  case MONITORING
  with assms have w: "window st \<noteq> []" by (auto simp: detector_inv_def)
  from assms have srt: "sorted (map fst (window st @ run st))"
    and ord: "ordered_records (records st)"
    and lst: "\<forall>d \<in> set (map fst (window st @ run st)).
        records st \<noteq> [] \<longrightarrow> sr_end (last (records st)) \<le> d"
    by (auto simp: detector_inv_def)
  have "fst (hd (window st @ run st)) \<le> fst (last (window st @ run st))"
    using srt w by (intro sorted_hd_le_last) simp_all
  then have "fst (hd (window st)) \<le> fst (last (window st @ run st))" using w by simp
  then have "ordered_records (emit st (fst (last (window st @ run st))) 0)"
    using ord lst by (intro emit_ordered) auto
  with MONITORING show ?thesis by (simp add: detect_finish_def)
qed (use assms in \<open>auto simp: detect_finish_def detector_inv_def\<close>)


text \<open>
  C7: for time-ordered observations of a pixel, every emitted record has
  \<open>start \<le> end\<close>, and each record ends no later than the next one starts.
\<close>

theorem detect_records_ordered:
  assumes "sorted (map fst obs)" and "detect cfg obs = Inr rs"
  shows "(\<forall>r \<in> set rs. sr_start r \<le> sr_end r) \<and>
         (\<forall>i. Suc i < length rs \<longrightarrow> sr_end (rs ! i) \<le> sr_start (rs ! Suc i))"
proof -
  have "detector_inv detector_init (obs @ [])"
    using assms(1) by (simp add: detector_inv_def detector_init_def ordered_records_def)
  then have "detector_inv (foldl (detect_step cfg) detector_init obs) []"
    by (rule foldl_detect_step_inv)
  then have "ordered_records (records (detect_finish (foldl (detect_step cfg) detector_init obs)))"
    by (rule detect_finish_ordered)
  moreover have "rs = records (detect_finish (foldl (detect_step cfg) detector_init obs))"
    using assms(2) by (auto simp: detect_def split: if_splits)
  ultimately show ?thesis by (simp add: ordered_records_def)
qed

theorem detect_records_ordered_witness:
  "detect \<lparr>min_obs = 2, consecutive = 2, max_retries = 0, refit = False,
           fit = (\<lambda>w. Some ([], [])), exceeds = (\<lambda>m ob. snd ob = [1])\<rparr>
     [(1, [0]), (2, [0]), (3, [0]), (4, [1]), (5, [1]), (6, [0]), (7, [0])]
   = Inr [\<lparr>sr_start = 1, sr_end = 3, sr_break = 4, sr_coef = [], sr_rmse = []\<rparr>,
          \<lparr>sr_start = 4, sr_end = 7, sr_break = 0, sr_coef = [], sr_rmse = []\<rparr>] \<and>
   (let rs = [\<lparr>sr_start = 1, sr_end = 3, sr_break = 4, sr_coef = [], sr_rmse = []\<rparr>,
          \<lparr>sr_start = 4, sr_end = 7, sr_break = 0, sr_coef = [], sr_rmse = []\<rparr>]
    in (\<forall>r \<in> set rs. sr_start r \<le> sr_end r) \<and>
       (\<forall>i. Suc i < length rs \<longrightarrow> sr_end (rs ! i) \<le> sr_start (rs ! Suc i)))"
proof -
  let ?cfg = "\<lparr>min_obs = 2, consecutive = 2, max_retries = 0, refit = False,
           fit = (\<lambda>w. Some ([], [])), exceeds = (\<lambda>m ob. snd ob = [1::real])\<rparr>"
  let ?obs = "[(1, [0]), (2, [0]), (3, [0]), (4, [1]), (5, [1]), (6, [0]), (7, [0])] :: observation list"
  have ev: "detect ?cfg ?obs
   = Inr [\<lparr>sr_start = 1, sr_end = 3, sr_break = 4, sr_coef = [], sr_rmse = []\<rparr>,
          \<lparr>sr_start = 4, sr_end = 7, sr_break = 0, sr_coef = [], sr_rmse = []\<rparr>]"
    by (simp add: detect_def detect_step_def detect_finish_def detector_init_def emit_def Let_def)
  have srt: "sorted (map fst ?obs)" by simp
  note o = detect_records_ordered [OF srt ev]
  show ?thesis
    unfolding Let_def by (intro conjI ev conjunct1 [OF o] conjunct2 [OF o])
qed

section \<open>Loops that stop at the first error\<close>

lemma mapM_Inr:
  "mapM f xs = Inr ys \<Longrightarrow> length ys = length xs \<and> (\<forall>i<length xs. f (xs ! i) = Inr (ys ! i))"
proof (induction xs arbitrary: ys)
  case Nil
  then show ?case by simp
next
  case (Cons x xs)
  from Cons.prems obtain y ys' where y: "f x = Inr y" and ys': "mapM f xs = Inr ys'"
    and ys: "ys = y # ys'"
    by (auto split: sum.splits)
  note IH = Cons.IH [OF ys']
  have "f ((x # xs) ! i) = Inr (ys ! i)" if "i < length (x # xs)" for i
  proof (cases i)
    case 0
    with y ys show ?thesis by simp
  next
    case (Suc j)
    with that IH ys show ?thesis by simp
  qed
  with IH ys show ?case by simp
qed

lemma foldM_append:
  "foldM f s (xs @ ys) = (case foldM f s xs of Inl e \<Rightarrow> Inl e | Inr s' \<Rightarrow> foldM f s' ys)"
proof (induction xs arbitrary: s)
  case Nil
  show ?case by simp
next
  case (Cons x xs)
  show ?case by (cases "f s x") (simp_all add: Cons.IH)
qed



section \<open>Properties of the coefficient export\<close>

text \<open>The export writes the coefficient fields only, so the lookup does not see it.\<close>

lemma normalize_intercept_fields:
  assumes "normalize_intercept use_robust r = Inr r'"
  shows "start r' = start r \<and> end_date r' = end_date r \<and> break r' = break r \<and>
     px r' = px r \<and> py r' = py r \<and> rmse r' = rmse r \<and> robust_rmse r' = robust_rmse r"
proof -
  from assms obtain c where "r' = set_coef use_robust c r"
    by (auto simp: normalize_intercept_def Let_def split: if_splits)
  then show ?thesis by (cases use_robust) (simp_all add: set_coef_def)
qed

lemma normalize_at_fields:
  assumes "normalize_at use_robust rec index = Inr rec'"
  shows "length rec' = length rec \<and>
         (\<forall>i<length rec. start (rec' ! i) = start (rec ! i) \<and>
            end_date (rec' ! i) = end_date (rec ! i) \<and> break (rec' ! i) = break (rec ! i) \<and>
            px (rec' ! i) = px (rec ! i) \<and> py (rec' ! i) = py (rec ! i))"
proof -
  note m = mapM_Inr [OF assms [unfolded normalize_at_def]]
  from m have len: "length rec' = length rec" by simp
  moreover have "start (rec' ! i) = start (rec ! i) \<and>
            end_date (rec' ! i) = end_date (rec ! i) \<and> break (rec' ! i) = break (rec ! i) \<and>
            px (rec' ! i) = px (rec ! i) \<and> py (rec' ! i) = py (rec ! i)" if i: "i < length rec" for i
  proof -
    from m i have "(if i \<in> set index then normalize_intercept use_robust (rec ! i) else Inr (rec ! i))
        = Inr (rec' ! i)" by simp
    then show ?thesis
    proof (cases "i \<in> set index")
      case True
      with \<open>(if i \<in> set index then normalize_intercept use_robust (rec ! i) else Inr (rec ! i))
        = Inr (rec' ! i)\<close>
      have "normalize_intercept use_robust (rec ! i) = Inr (rec' ! i)" by simp
      from normalize_intercept_fields [OF this] show ?thesis by simp
    next
      case False
      with \<open>(if i \<in> set index then normalize_intercept use_robust (rec ! i) else Inr (rec ! i))
        = Inr (rec' ! i)\<close>
      show ?thesis by simp
    qed
  qed
  ultimately show ?thesis by blast
qed

lemma np_where_cong:
  assumes "length ys = length xs" "\<And>i. i < length xs \<Longrightarrow> P (ys ! i) = Q (xs ! i)"
  shows "np_where P ys = np_where Q xs"
  unfolding np_where_def using assms by (auto intro: filter_cong)

lemma find_indices_normalize_at:
  assumes "normalize_at use_robust rec index = Inr rec'"
  shows "find_indices rec' date after before = find_indices rec date after before"
proof -
  note f = normalize_at_fields [OF assms]
  have a: "np_where (\<lambda>r. sint (end_date r) \<le> date \<and> break r = 0) rec' =
        np_where (\<lambda>r. sint (end_date r) \<le> date \<and> break r = 0) rec"
    using f by (intro np_where_cong) auto
  have b: "np_where (\<lambda>r. sint (start r) \<ge> date) rec' = np_where (\<lambda>r. sint (start r) \<ge> date) rec"
    using f by (intro np_where_cong) auto
  have c: "np_where (\<lambda>r. sint (start r) \<le> date \<and> sint (end_date r) \<ge> date) rec' =
        np_where (\<lambda>r. sint (start r) \<le> date \<and> sint (end_date r) \<ge> date) rec"
    using f by (intro np_where_cong) auto
  have d: "map (\<lambda>i. px (rec' ! i)) (np_where (\<lambda>r. sint (start r) \<ge> date) rec) =
        map (\<lambda>i. px (rec ! i)) (np_where (\<lambda>r. sint (start r) \<ge> date) rec)"
    using f by (auto simp: np_where_def)
  show ?thesis
    unfolding find_indices_def a b c Let_def d ..
qed

text \<open>
  C1 fails on the code: a record that ends at the query date with \<open>break = 0\<close> is
  selected by the \<open>before\<close> indices and again by the intersecting ones, and the
  statement that normalizes the intercept runs for each index array on the array
  itself. With intercept 1, slope 2 and mid-point 5 the export writes 21, where the
  intercept plus slope times mid-point is 11.
\<close>

theorem get_coefficients_normalizes_twice:
  "(let r = \<lparr>start = 0, end_date = 10, break = 0, coef = [[1], [2]], px = 0, py = 0,
             rmse = [3], robust_coef = [[1], [2]], robust_rmse = [3]\<rparr>
    in find_indices [r] 10 False True = [[0], [0]] \<and>
       map_sum id fst (get_coefficients 10 [[r]] 1 1 [0] [0, 1] False False False True (- 9999))
         = Inr [[[21, 2]]] \<and>
       coef r ! 0 ! 0 + coef r ! 1 ! 0 * midpoint r = 11)"
  by (simp add: get_coefficients_def find_indices_def np_where_def coef_step_def
      normalize_at_def normalize_intercept_def get_coef_def set_coef_def midpoint_def
      extract_coefs_def take_indices_def py_index_def py_at_def raster_assign_def raster_write_def)








section \<open>Properties of the training-data lookup\<close>

lemma length_np_where:
  "length (np_where P xs) = card {i. i < length xs \<and> P (xs ! i)}"
proof -
  have "distinct (np_where P xs)" by (simp add: np_where_def)
  then have "length (np_where P xs) = card (set (np_where P xs))"
    by (simp add: distinct_card)
  also have "set (np_where P xs) = {i. i < length xs \<and> P (xs ! i)}"
    by (auto simp: np_where_def)
  finally show ?thesis .
qed

lemma np_where_singleton:
  assumes "{i. i < length xs \<and> P (xs ! i)} = {k}"
  shows "np_where P xs = [k]"
proof -
  have l: "length (np_where P xs) = 1" using assms by (simp add: length_np_where)
  have "set (np_where P xs) = {k}" using assms by (auto simp: np_where_def)
  with l show ?thesis by (cases "np_where P xs") auto
qed

lemma training_sample_ambiguous:
  assumes "(if row_previous st = Some row then Some (cur_rec st) else load row) = Some rec"
    and "1 < card {i. i < length rec \<and> sint (start (rec ! i)) < ts \<and> te < sint (end_date (rec ! i)) \<and>
                     uint (px (rec ! i)) = int col}"
  shows "training_sample load eom ts te st (row, col, y) = Inl TrainingDataException"
proof -
  have l: "1 < length (np_where (\<lambda>r. sint (start r) < ts \<and> te < sint (end_date r) \<and>
                     uint (px r) = int col) rec)"
    using assms(2) by (simp add: length_np_where)
  then have n: "np_where (\<lambda>r. sint (start r) < ts \<and> te < sint (end_date r) \<and>
                     uint (px r) = int col) rec \<noteq> []"
    by auto
  show ?thesis
  proof (cases "row_previous st = Some row")
    case True
    with assms(1) have "cur_rec st = rec" by simp
    with True l n show ?thesis by (simp add: training_sample_def Let_def)
  next
    case False
    with assms(1) have "load row = Some rec" by simp
    with False l n show ?thesis by (simp add: training_sample_def Let_def)
  qed
qed

lemma training_sample_unique:
  assumes "(if row_previous st = Some row then Some (cur_rec st) else load row) = Some rec"
    and "{i. i < length rec \<and> sint (start (rec ! i)) < ts \<and> te < sint (end_date (rec ! i)) \<and>
             uint (px (rec ! i)) = int col} = {k}"
    and "rescale_intercept (rec ! k) = Inr c"
  shows "training_sample load eom ts te st (row, col, y) =
           Inr (st\<lparr>cur_rec := rec, row_previous := Some row,
                   X_out := X_out st @ [concat c @ rmse (rec ! k)],
                   out_y := out_y st @ [y], out_row := out_row st @ [row],
                   out_col := out_col st @ [col]\<rparr>)"
proof -
  have w: "np_where (\<lambda>r. sint (start r) < ts \<and> te < sint (end_date r) \<and>
                     uint (px r) = int col) rec = [k]"
    using assms(2) by (intro np_where_singleton) simp
  show ?thesis
  proof (cases "row_previous st = Some row")
    case True
    with assms(1) have "cur_rec st = rec" by simp
    with True w assms(3) show ?thesis by (simp add: training_sample_def Let_def)
  next
    case False
    with assms(1) have "load row = Some rec" by simp
    with False w assms(3) show ?thesis by (simp add: training_sample_def Let_def)
  qed
qed



text \<open>
  C5: at a sample reached without error whose result array is loaded, if more than one
  record matches the query (start before the training start, end after the training
  end, same pixel x-coordinate), \<^verbatim>\<open>get_training_inputs\<close> raises
  \<^verbatim>\<open>TrainingDataException\<close>, whatever samples follow; if exactly one record matches,
  the feature row appended for the sample is made of that record's coefficients, the
  intercept row rescaled to the segment mid-point, followed by that record's RMSE.
\<close>

theorem get_training_inputs_unique_or_raise:
  assumes "foldM (training_sample load exit_on_missing training_start training_end)
             train_state0 before_s = Inr st"
    and "(if row_previous st = Some row then Some (cur_rec st) else load row) = Some rec"
  shows "(1 < card {i. i < length rec \<and> sint (start (rec ! i)) < training_start \<and>
                       training_end < sint (end_date (rec ! i)) \<and>
                       uint (px (rec ! i)) = int col} \<longrightarrow>
            get_training_inputs load (before_s @ (row, col, y) # after_s)
              training_start training_end exit_on_missing = Inl TrainingDataException) \<and>
         (\<forall>k. {i. i < length rec \<and> sint (start (rec ! i)) < training_start \<and>
                   training_end < sint (end_date (rec ! i)) \<and>
                   uint (px (rec ! i)) = int col} = {k} \<and>
              2 \<le> length (coef (rec ! k)) \<longrightarrow>
            get_training_inputs load (before_s @ [(row, col, y)])
              training_start training_end exit_on_missing =
            Inr (X_out st @
                   [concat ((coef (rec ! k))
                      [0 := map2 (\<lambda>a b. a + b * real_of_int
                                      (sint (start (rec ! k) + end_date (rec ! k))) / 2)
                                 (coef (rec ! k) ! 0) (coef (rec ! k) ! 1)])
                    @ rmse (rec ! k)],
                 out_y st @ [y], out_row st @ [row], out_col st @ [col]))"
proof (intro conjI impI allI)
  assume "1 < card {i. i < length rec \<and> sint (start (rec ! i)) < training_start \<and>
                       training_end < sint (end_date (rec ! i)) \<and>
                       uint (px (rec ! i)) = int col}"
  with assms(2)
  have "training_sample load exit_on_missing training_start training_end st (row, col, y)
          = Inl TrainingDataException"
    by (rule training_sample_ambiguous)
  with assms(1)
  show "get_training_inputs load (before_s @ (row, col, y) # after_s)
              training_start training_end exit_on_missing = Inl TrainingDataException"
    by (simp add: get_training_inputs_def foldM_append)
next
  fix k
  assume a: "{i. i < length rec \<and> sint (start (rec ! i)) < training_start \<and>
                   training_end < sint (end_date (rec ! i)) \<and>
                   uint (px (rec ! i)) = int col} = {k} \<and>
              2 \<le> length (coef (rec ! k))"
  let ?c = "(coef (rec ! k))
                      [0 := map2 (\<lambda>a b. a + b * real_of_int
                                      (sint (start (rec ! k) + end_date (rec ! k))) / 2)
                                 (coef (rec ! k) ! 0) (coef (rec ! k) ! 1)]"
  from a have r: "rescale_intercept (rec ! k) = Inr ?c"
    by (simp add: rescale_intercept_def Let_def)
  from a have u: "{i. i < length rec \<and> sint (start (rec ! i)) < training_start \<and>
                   training_end < sint (end_date (rec ! i)) \<and>
                   uint (px (rec ! i)) = int col} = {k}" by simp
  note t = training_sample_unique [where st = st and row = row and load = load and rec = rec
      and ts = training_start and te = training_end and col = col and k = k and c = ?c
      and eom = exit_on_missing and y = y, OF assms(2) u r]
  show "get_training_inputs load (before_s @ [(row, col, y)])
              training_start training_end exit_on_missing =
            Inr (X_out st @ [concat ?c @ rmse (rec ! k)],
                 out_y st @ [y], out_row st @ [row], out_col st @ [col])"
    using assms(1) t by (simp add: get_training_inputs_def foldM_append)
qed

theorem get_training_inputs_unique_or_raise_witness:
  "get_training_inputs
     (\<lambda>row. Some [\<lparr>start = 0, end_date = 10, break = 0, coef = [[1], [2]], px = 0, py = 0,
                     rmse = [3], robust_coef = [], robust_rmse = []\<rparr>,
                   \<lparr>start = 1, end_date = 20, break = 0, coef = [[4], [5]], px = 0, py = 0,
                     rmse = [6], robust_coef = [], robust_rmse = []\<rparr>])
     [(0, 0, 5)] 3 7 False = Inl TrainingDataException \<and>
   get_training_inputs
     (\<lambda>row. Some [\<lparr>start = 0, end_date = 10, break = 0, coef = [[1], [2]], px = 0, py = 0,
                     rmse = [3], robust_coef = [], robust_rmse = []\<rparr>,
                   \<lparr>start = 1, end_date = 20, break = 0, coef = [[4], [5]], px = 1, py = 0,
                     rmse = [6], robust_coef = [], robust_rmse = []\<rparr>])
     [(0, 0, 5)] 3 7 False = Inr ([[11, 2, 3]], [5], [0], [0])"
proof -
  let ?r1 = "\<lparr>start = 0, end_date = 10, break = 0, coef = [[1], [2]], px = 0, py = 0,
                     rmse = [3], robust_coef = [], robust_rmse = []\<rparr> :: result"
  let ?r2 = "\<lparr>start = 1, end_date = 20, break = 0, coef = [[4], [5]], px = 0, py = 0,
                     rmse = [6], robust_coef = [], robust_rmse = []\<rparr> :: result"
  let ?r3 = "\<lparr>start = 1, end_date = 20, break = 0, coef = [[4], [5]], px = 1, py = 0,
                     rmse = [6], robust_coef = [], robust_rmse = []\<rparr> :: result"
  have p: "foldM (training_sample ld False 3 7) train_state0 [] = Inr train_state0" for ld
    by simp
  have l2: "(if row_previous train_state0 = Some 0 then Some (cur_rec train_state0)
             else (\<lambda>row. Some [?r1, ?r2]) 0) = Some [?r1, ?r2]"
    by (simp add: train_state0_def)
  have l3: "(if row_previous train_state0 = Some 0 then Some (cur_rec train_state0)
             else (\<lambda>row. Some [?r1, ?r3]) 0) = Some [?r1, ?r3]"
    by (simp add: train_state0_def)
  have s2: "{i. i < length [?r1, ?r2] \<and> sint (start ([?r1, ?r2] ! i)) < 3 \<and>
               7 < sint (end_date ([?r1, ?r2] ! i)) \<and> uint (px ([?r1, ?r2] ! i)) = int 0}
            = {0, 1}"
    by (auto simp: less_Suc_eq numeral_2_eq_2)
  have s3: "{i. i < length [?r1, ?r3] \<and> sint (start ([?r1, ?r3] ! i)) < 3 \<and>
               7 < sint (end_date ([?r1, ?r3] ! i)) \<and> uint (px ([?r1, ?r3] ! i)) = int 0}
            = {0}"
    by (auto simp: less_Suc_eq numeral_2_eq_2)
  have c2: "1 < card {i. i < length [?r1, ?r2] \<and> sint (start ([?r1, ?r2] ! i)) < 3 \<and>
               7 < sint (end_date ([?r1, ?r2] ! i)) \<and> uint (px ([?r1, ?r2] ! i)) = int 0}"
    unfolding s2 by simp
  have a: "get_training_inputs (\<lambda>row. Some [?r1, ?r2]) ([] @ (0, 0, 5) # []) 3 7 False
            = Inl TrainingDataException"
    using get_training_inputs_unique_or_raise [where load = "\<lambda>row. Some [?r1, ?r2]"
        and exit_on_missing = False and training_start = 3 and training_end = 7
        and before_s = "[]" and st = train_state0 and row = 0 and rec = "[?r1, ?r2]"
        and col = 0 and y = 5 and after_s = "[]", OF p l2] c2
    by blast
  have b: "get_training_inputs (\<lambda>row. Some [?r1, ?r3]) ([] @ [(0, 0, 5)]) 3 7 False
            = Inr (X_out train_state0 @
                   [concat ((coef ([?r1, ?r3] ! 0))
                      [0 := map2 (\<lambda>a b. a + b * real_of_int
                                      (sint (start ([?r1, ?r3] ! 0) + end_date ([?r1, ?r3] ! 0))) / 2)
                                 (coef ([?r1, ?r3] ! 0) ! 0) (coef ([?r1, ?r3] ! 0) ! 1)])
                    @ rmse ([?r1, ?r3] ! 0)],
                 out_y train_state0 @ [5], out_row train_state0 @ [0], out_col train_state0 @ [0])"
    using get_training_inputs_unique_or_raise [where load = "\<lambda>row. Some [?r1, ?r3]"
        and exit_on_missing = False and training_start = 3 and training_end = 7
        and before_s = "[]" and st = train_state0 and row = 0 and rec = "[?r1, ?r3]"
        and col = 0 and y = 5 and after_s = "[]", OF p l3] s3
    by simp
  from a b show ?thesis by (simp add: train_state0_def)
qed

section \<open>Properties of the prediction export\<close>

lemma py_index_Inr: "py_index xs i = Inr v \<Longrightarrow> v = py_at xs i"
  by (simp add: py_index_def Let_def split: if_splits)

lemma take_indices_Inr:
  assumes "take_indices xs idx = Inr vs"
  shows "vs = map (py_at xs) idx"
proof (rule nth_equalityI)
  note m = mapM_Inr [OF assms [unfolded take_indices_def]]
  from m show "length vs = length (map (py_at xs) idx)" by simp
  fix i assume "i < length vs"
  with m have i: "i < length idx" and "py_index xs (idx ! i) = Inr (vs ! i)" by simp_all
  then show "vs ! i = map (py_at xs) idx ! i" by (simp add: py_index_Inr)
qed

lemma predict_record_spec:
  assumes "predict_record c i_bands X = Inr vals"
  shows "vals = map (spec_inner_product c X) i_bands"
proof -
  from assms obtain sel where sel: "mapM (\<lambda>row. take_indices row i_bands) c = Inr sel"
    and len: "length sel = length X"
    and vals: "vals = map (\<lambda>j. \<Sum>k\<leftarrow>[0..<length X]. sel ! k ! j * X ! k) [0..<length i_bands]"
    by (auto simp: predict_record_def split: sum.splits if_splits)
  note m = mapM_Inr [OF sel]
  have row: "sel ! k = map (py_at (c ! k)) i_bands" if "k < length X" for k
  proof -
    from that len m have "take_indices (c ! k) i_bands = Inr (sel ! k)" by simp
    then show ?thesis by (rule take_indices_Inr)
  qed
  show ?thesis
  proof (rule nth_equalityI)
    show "length vals = length (map (spec_inner_product c X) i_bands)"
      using vals by simp
    fix j assume "j < length vals"
    then have j: "j < length i_bands" using vals by simp
    have eq: "map (\<lambda>k. sel ! k ! j * X ! k) [0..<length X] =
          map (\<lambda>k. py_at (c ! k) (i_bands ! j) * X ! k) [0..<length X]"
    proof (rule map_cong [OF refl])
      fix k assume "k \<in> set [0..<length X]"
      then have "k < length X" by simp
      from row [OF this] j show "sel ! k ! j * X ! k = py_at (c ! k) (i_bands ! j) * X ! k"
        by simp
    qed
    have "vals ! j = sum_list (map (\<lambda>k. sel ! k ! j * X ! k) [0..<length X])"
      using j vals by simp
    also have "\<dots> = sum_list (map (\<lambda>k. py_at (c ! k) (i_bands ! j) * X ! k) [0..<length X])"
      by (simp only: eq)
    also have "\<dots> = map (spec_inner_product c X) i_bands ! j"
      using j by (simp add: spec_inner_product_def)
    finally show "vals ! j = map (spec_inner_product c X) i_bands ! j" .
  qed
qed

lemma mapM_ok:
  assumes "\<And>x. x \<in> set xs \<Longrightarrow> \<exists>y. f x = Inr y"
  shows "\<exists>ys. mapM f xs = Inr ys"
  using assms
proof (induction xs)
  case Nil
  show ?case by simp
next
  case (Cons x xs)
  from Cons.prems [of x] obtain y where y: "f x = Inr y" by auto
  from Cons.IH Cons.prems obtain ys where ys: "mapM f xs = Inr ys" by auto
  from y ys show ?case by simp
qed

lemma foldM_ok:
  assumes "I s" and "\<And>a x. I a \<Longrightarrow> x \<in> set xs \<Longrightarrow> \<exists>b. f a x = Inr b \<and> I b"
  shows "\<exists>s'. foldM f s xs = Inr s' \<and> I s'"
  using assms
proof (induction xs arbitrary: s)
  case Nil
  then show ?case by simp
next
  case (Cons x xs)
  from Cons.prems(2) [OF Cons.prems(1), of x] obtain s1 where s1: "f s x = Inr s1" "I s1"
    by auto
  have "\<exists>s'. foldM f s1 xs = Inr s' \<and> I s'"
  proof (rule Cons.IH [OF s1(2)])
    fix a y assume "I a" "y \<in> set xs"
    then show "\<exists>b. f a y = Inr b \<and> I b" using Cons.prems(2) [of a y] by simp
  qed
  with s1 show ?case by simp
qed

lemma foldM_visited:
  assumes "foldM f s xs = Inr s'" and "I vis s"
    and "\<And>v a x b. I v a \<Longrightarrow> x \<in> set xs \<Longrightarrow> f a x = Inr b \<Longrightarrow> I (v @ g x) b"
  shows "I (vis @ concat (map g xs)) s'"
  using assms
proof (induction xs arbitrary: s vis)
  case Nil
  then show ?case by simp
next
  case (Cons x xs)
  from Cons.prems(1) obtain s1 where s1: "f s x = Inr s1" and r: "foldM f s1 xs = Inr s'"
    by (cases "f s x") simp_all
  have i1: "I (vis @ g x) s1" by (rule Cons.prems(3) [OF Cons.prems(2) _ s1]) simp
  have "I ((vis @ g x) @ concat (map g xs)) s'"
  proof (rule Cons.IH [OF r i1])
    fix v a y b assume "I v a" "y \<in> set xs" "f a y = Inr b"
    then show "I (v @ g y) b" using Cons.prems(3) [of v a y b] by simp
  qed
  then show ?case by simp
qed

lemma predict_record_ok:
  assumes "length c = length X"
    and "\<And>row b. row \<in> set c \<Longrightarrow> b \<in> set i_bands \<Longrightarrow>
            - int (length row) \<le> b \<and> b < int (length row)"
  shows "predict_record c i_bands X = Inr (map (spec_inner_product c X) i_bands)"
proof -
  have "\<exists>sel. mapM (\<lambda>row. take_indices row i_bands) c = Inr sel"
  proof (rule mapM_ok)
    fix row assume row: "row \<in> set c"
    have "\<exists>vs. mapM (py_index row) i_bands = Inr vs"
    proof (rule mapM_ok)
      fix b assume "b \<in> set i_bands"
      from assms(2) [OF row this] show "\<exists>y. py_index row b = Inr y"
        by (auto simp: py_index_def Let_def)
    qed
    then show "\<exists>y. take_indices row i_bands = Inr y" by (simp add: take_indices_def)
  qed
  then obtain sel where sel: "mapM (\<lambda>row. take_indices row i_bands) c = Inr sel" ..
  from mapM_Inr [OF sel] assms(1) have "length sel = length X" by simp
  with sel obtain vals where v: "predict_record c i_bands X = Inr vals"
    by (simp add: predict_record_def)
  from predict_record_spec [OF v] v show ?thesis by simp
qed

lemma mapM_eq_map:
  assumes "\<And>x. x \<in> set xs \<Longrightarrow> f x = Inr (g x)"
  shows "mapM f xs = Inr (map g xs)"
  using assms by (induction xs) simp_all

lemma pixel_after_snoc:
  "pixel_after nd val (vis @ [r]) y x =
     (if unat (py r) = y \<and> unat (px r) = x then val r else pixel_after nd val vis y x)"
  by (simp add: pixel_after_def Let_def)

lemma raster_write_nth:
  assumes w: "raster_write ras y x 0 vals = Inr ras'"
    and inv: "raster_inv ysize xsize n Q ras"
    and len: "length vals = n"
  shows "length ras' = ysize \<and>
         (\<forall>y'<ysize. length (ras' ! y') = xsize \<and>
            (\<forall>x'<xsize. ras' ! y' ! x' = (if y' = y \<and> x' = x then vals else ras ! y' ! x')))"
proof -
  from w have y: "y < length ras" and x: "x < length (ras ! y)"
    and ras': "ras' = ras[y := (ras ! y)[x := vals @ drop (length vals) (ras ! y ! x)]]"
    by (auto simp: raster_write_def split: if_splits)
  from inv y x have "length (ras ! y ! x) = n"
    by (simp add: raster_inv_def)
  with len have px: "vals @ drop (length vals) (ras ! y ! x) = vals" by simp
  show ?thesis
  proof (intro conjI allI impI)
    show "length ras' = ysize" using inv ras' by (simp add: raster_inv_def)
  next
    fix y' assume "y' < ysize"
    with inv show "length (ras' ! y') = xsize"
      unfolding ras' px by (cases "y' = y") (simp_all add: raster_inv_def)
  next
    fix y' x' assume a: "y' < ysize" "x' < xsize"
    with inv have ly: "y' < length ras" and lx: "x' < length (ras ! y')"
      by (simp_all add: raster_inv_def)
    show "ras' ! y' ! x' = (if y' = y \<and> x' = x then vals else ras ! y' ! x')"
      unfolding ras' px using ly lx
      by (cases "y' = y"; cases "x' = x") simp_all
  qed
qed

lemma raster_write_visited:
  assumes w: "raster_write ras (unat (py r)) (unat (px r)) 0 (val r) = Inr ras'"
    and inv: "raster_inv ysize xsize n (\<lambda>y x p. p = pixel_after nd val vis y x) ras"
    and len: "length (val r) = n"
    and nd: "length nd = n"
  shows "raster_inv ysize xsize n (\<lambda>y x p. p = pixel_after nd val (vis @ [r]) y x) ras'"
proof -
  note nth = raster_write_nth [OF w inv len]
  show ?thesis
    unfolding raster_inv_def
  proof (intro conjI allI impI)
    show "length ras' = ysize" using nth by simp
  next
    fix y assume "y < ysize"
    with nth show "length (ras' ! y) = xsize" by simp
  next
    fix y x assume a: "y < ysize" "x < xsize"
    with nth have eq: "ras' ! y ! x =
        (if y = unat (py r) \<and> x = unat (px r) then val r else ras ! y ! x)" by simp
    from inv a have "length (ras ! y ! x) = n \<and> ras ! y ! x = pixel_after nd val vis y x"
      unfolding raster_inv_def by blast
    then have old: "length (ras ! y ! x) = n" "ras ! y ! x = pixel_after nd val vis y x"
      by blast+
    show "ras' ! y ! x = pixel_after nd val (vis @ [r]) y x"
      unfolding eq pixel_after_snoc using old by auto
    show "length (ras' ! y ! x) = n"
      unfolding eq using old len by simp
  qed
qed

lemma stored_prediction_length: "length (stored_prediction i_bands X r) = length i_bands"
  by (simp add: stored_prediction_def)

lemma pred_writes_visited:
  assumes "mapM (\<lambda>i. case predict_record (coef (rec ! i)) i_bands X of
                        Inl e \<Rightarrow> Inl e
                      | Inr vals \<Rightarrow>
                          Inr (unat (py (rec ! i)), unat (px (rec ! i)), map astype_int16 vals))
                index = Inr ws"
    and "raster_assign 0 ras ws = Inr ras'"
    and "raster_inv ysize xsize (length i_bands)
           (\<lambda>y x p. p = pixel_after nd (stored_prediction i_bands X) vis y x) ras"
    and "length nd = length i_bands"
  shows "raster_inv ysize xsize (length i_bands)
           (\<lambda>y x p. p = pixel_after nd (stored_prediction i_bands X)
                            (vis @ map (\<lambda>i. rec ! i) index) y x) ras'"
  using assms
proof (induction index arbitrary: ws ras vis)
  case Nil
  then show ?case by (simp add: raster_assign_def)
next
  case (Cons i index)
  let ?f = "\<lambda>i. case predict_record (coef (rec ! i)) i_bands X of
                        Inl e \<Rightarrow> Inl e
                      | Inr vals \<Rightarrow>
                          Inr (unat (py (rec ! i)), unat (px (rec ! i)), map astype_int16 vals)"
  from Cons.prems(1) obtain w ws' where w: "?f i = Inr w" and ws': "mapM ?f index = Inr ws'"
    and ws: "ws = w # ws'"
    by (cases "?f i"; cases "mapM ?f index") simp_all
  from w obtain v where v: "predict_record (coef (rec ! i)) i_bands X = Inr v"
    and weq: "w = (unat (py (rec ! i)), unat (px (rec ! i)), map astype_int16 v)"
    by (cases "predict_record (coef (rec ! i)) i_bands X") auto
  from predict_record_spec [OF v]
  have val: "map astype_int16 v = stored_prediction i_bands X (rec ! i)"
    by (simp add: stored_prediction_def)
  from Cons.prems(2) ws weq val obtain ras1 where
    w1: "raster_write ras (unat (py (rec ! i))) (unat (px (rec ! i))) 0
           (stored_prediction i_bands X (rec ! i)) = Inr ras1"
    and rest: "raster_assign 0 ras1 ws' = Inr ras'"
    by (cases "raster_write ras (unat (py (rec ! i))) (unat (px (rec ! i))) 0
           (stored_prediction i_bands X (rec ! i))")
       (simp_all add: raster_assign_def)
  have i1: "raster_inv ysize xsize (length i_bands)
           (\<lambda>y x p. p = pixel_after nd (stored_prediction i_bands X) (vis @ [rec ! i]) y x) ras1"
    by (rule raster_write_visited [OF w1 Cons.prems(3) stored_prediction_length Cons.prems(4)])
  from Cons.IH [OF ws' rest i1 Cons.prems(4)] show ?case by simp
qed

lemma pred_step_visited:
  assumes step: "pred_step i_bands X rec ras index = Inr ras'"
    and inv: "raster_inv ysize xsize (length i_bands)
           (\<lambda>y x p. p = pixel_after nd (stored_prediction i_bands X) vis y x) ras"
    and nd: "length nd = length i_bands"
  shows "raster_inv ysize xsize (length i_bands)
           (\<lambda>y x p. p = pixel_after nd (stored_prediction i_bands X)
                            (vis @ map (\<lambda>i. rec ! i) index) y x) ras'"
proof (cases "index = []")
  case True
  with step inv show ?thesis by (simp add: pred_step_def)
next
  case False
  let ?f = "\<lambda>i. case predict_record (coef (rec ! i)) i_bands X of
                        Inl e \<Rightarrow> Inl e
                      | Inr vals \<Rightarrow>
                          Inr (unat (py (rec ! i)), unat (px (rec ! i)), map astype_int16 vals)"
  from step False obtain ws where ws: "mapM ?f index = Inr ws"
    and asg: "raster_assign 0 ras ws = Inr ras'"
    by (cases "mapM ?f index") (simp_all add: pred_step_def)
  show ?thesis by (rule pred_writes_visited [OF ws asg inv nd])
qed

lemma astype_int16_in_range:
  assumes "- 32768 \<le> v" and "v \<le> 32767"
  shows "sint (astype_int16 v) = (if v < 0 then \<lceil>v\<rceil> else \<lfloor>v\<rfloor>)"
proof -
  let ?t = "if v < 0 then \<lceil>v\<rceil> else \<lfloor>v\<rfloor>"
  have lo: "- 32768 \<le> ?t" using assms(1) by (auto simp: le_floor_iff le_ceiling_iff)
  have hi: "?t \<le> 32767" using assms(2) by (auto simp: floor_le_iff ceiling_le_iff)
  from lo hi have "astype_int16 v = word_of_int ?t"
    by (simp add: astype_int16_def Let_def)
  moreover have "sint (word_of_int ?t :: 16 word) = ?t"
    using lo hi by (simp add: sint_sbintrunc' signed_take_bit_int_eq_self)
  ultimately show ?thesis by simp
qed


lemma raster_write_ok:
  assumes inv: "raster_inv ysize xsize n (\<lambda>y x p. True) ras"
    and y: "y < ysize" and x: "x < xsize" and len: "length vals = n"
  shows "\<exists>ras'. raster_write ras y x 0 vals = Inr ras' \<and>
               raster_inv ysize xsize n (\<lambda>y x p. True) ras'"
proof -
  from inv y x have "y < length ras" "x < length (ras ! y)"
    by (simp_all add: raster_inv_def)
  then obtain ras' where w: "raster_write ras y x 0 vals = Inr ras'"
    by (simp add: raster_write_def)
  note nth = raster_write_nth [OF w inv len]
  have "raster_inv ysize xsize n (\<lambda>y x p. True) ras'"
    unfolding raster_inv_def
  proof (intro conjI allI impI TrueI)
    show "length ras' = ysize" using nth by simp
  next
    fix y' assume "y' < ysize"
    with nth show "length (ras' ! y') = xsize" by simp
  next
    fix y' x' assume a: "y' < ysize" "x' < xsize"
    with nth have eq: "ras' ! y' ! x' = (if y' = y \<and> x' = x then vals else ras ! y' ! x')"
      by simp
    from inv a have "length (ras ! y' ! x') = n" by (simp add: raster_inv_def)
    with len show "length (ras' ! y' ! x') = n" unfolding eq by simp
  qed
  with w show ?thesis by blast
qed

lemma pred_step_ok:
  assumes inv: "raster_inv ysize xsize (length i_bands) (\<lambda>y x p. True) ras"
    and wf: "\<And>i. i \<in> set index \<Longrightarrow>
               unat (py (rec ! i)) < ysize \<and> unat (px (rec ! i)) < xsize \<and>
               length (coef (rec ! i)) = length X \<and>
               (\<forall>row \<in> set (coef (rec ! i)). \<forall>b \<in> set i_bands.
                  - int (length row) \<le> b \<and> b < int (length row))"
  shows "\<exists>ras'. pred_step i_bands X rec ras index = Inr ras' \<and>
               raster_inv ysize xsize (length i_bands) (\<lambda>y x p. True) ras'"
proof (cases "index = []")
  case True
  with inv show ?thesis by (simp add: pred_step_def)
next
  case False
  let ?f = "\<lambda>i. case predict_record (coef (rec ! i)) i_bands X of
                        Inl e \<Rightarrow> Inl e
                      | Inr vals \<Rightarrow>
                          Inr (unat (py (rec ! i)), unat (px (rec ! i)), map astype_int16 vals)"
  let ?g = "\<lambda>i. (unat (py (rec ! i)), unat (px (rec ! i)), stored_prediction i_bands X (rec ! i))"
  have ws: "mapM ?f index = Inr (map ?g index)"
  proof (rule mapM_eq_map)
    fix i assume i: "i \<in> set index"
    from wf [OF i]
    have "predict_record (coef (rec ! i)) i_bands X =
            Inr (map (spec_inner_product (coef (rec ! i)) X) i_bands)"
      by (intro predict_record_ok) auto
    then show "?f i = Inr (?g i)" by (simp add: stored_prediction_def)
  qed
  have "\<exists>ras'. foldM (\<lambda>ras' (y, x, vals). raster_write ras' y x 0 vals) ras (map ?g index)
                 = Inr ras' \<and> raster_inv ysize xsize (length i_bands) (\<lambda>y x p. True) ras'"
  proof (rule foldM_ok [where I = "raster_inv ysize xsize (length i_bands) (\<lambda>y x p. True)",
        OF inv])
    fix a :: "(16 word) raster" and w
    assume a: "raster_inv ysize xsize (length i_bands) (\<lambda>y x p. True) a"
      and w: "w \<in> set (map ?g index)"
    then obtain i where i: "i \<in> set index" and weq: "w = ?g i" by auto
    from wf [OF i] have b: "unat (py (rec ! i)) < ysize" "unat (px (rec ! i)) < xsize" by simp_all
    from raster_write_ok [OF a b stored_prediction_length [of i_bands X "rec ! i"]] weq
    show "\<exists>b. (case w of (y, x, vals) \<Rightarrow> raster_write a y x 0 vals) = Inr b \<and>
              raster_inv ysize xsize (length i_bands) (\<lambda>y x p. True) b"
      by simp
  qed
  with ws False show ?thesis by (simp add: pred_step_def raster_assign_def)
qed

lemma selected_recordsI:
  assumes "rec \<in> set recs" and "index \<in> set (find_indices rec date after before)"
    and "i \<in> set index"
  shows "rec ! i \<in> set (selected_records recs date after before)"
  using assms unfolding selected_records_def by auto


text \<open>
  C3, as stated, fails: the export keeps its predictions in an \<^verbatim>\<open>int16\<close> raster. For
  a record with intercept 1/4 and slope 1/8 and the design row \<open>[1, 10]\<close> the inner
  product is 3/2, and the raster holds 1.
\<close>

theorem get_prediction_truncates_counterexample:
  "get_prediction (\<lambda>d. [1, real_of_int d]) 10
     [[\<lparr>start = 0, end_date = 10, break = 0, coef = [[1 / 4], [1 / 8]], px = 0, py = 0,
        rmse = [3], robust_coef = [[1 / 4], [1 / 8]], robust_rmse = [3]\<rparr>]]
     1 1 [0] False False (- 9999) = Inr [[[1]]] \<and>
   spec_inner_product [[1 / 4], [1 / 8]] [1, real_of_int 10] 0 = 3 / 2 \<and>
   real_of_int (sint (1 :: 16 word)) \<noteq> 3 / 2"
  by (simp add: get_prediction_def find_indices_def np_where_def pred_step_def
      predict_record_def take_indices_def py_index_def py_at_def raster_assign_def
      raster_write_def astype_int16_def spec_inner_product_def)


text \<open>
  C3, amended: for a no-data value in the \<^verbatim>\<open>int16\<close> range, every pixel of the raster
  that the prediction export returns holds, for the record that the date lookup
  selected last at that pixel, the per-band inner products of the record's stored
  coefficient matrix with the design row of the date, each as the \<^verbatim>\<open>int16\<close> store
  keeps it, and the no-data value when no record was selected there; nothing is
  normalized before predicting. The export returns a raster whenever every selected
  record lies inside the image, has one coefficient row per entry of the design row
  and has the exported bands. The store truncates towards zero: a value in the
  \<^verbatim>\<open>int16\<close> range is kept as its integer part, so an inner product that is an integer
  in that range is kept as it is.
\<close>

theorem get_prediction_stores_truncated_inner_product:
  assumes "- 32768 \<le> ndv" and "ndv \<le> 32767"
  shows "(\<forall>ras y x.
            get_prediction make_X date recs ysize xsize i_bands after before ndv = Inr ras \<and>
            y < ysize \<and> x < xsize \<longrightarrow>
            ras ! y ! x =
              pixel_after (replicate (length i_bands) (word_of_int ndv))
                (stored_prediction i_bands (make_X date))
                (selected_records recs date after before) y x) \<and>
         ((\<forall>r \<in> set (selected_records recs date after before).
             unat (py r) < ysize \<and> unat (px r) < xsize \<and>
             length (coef r) = length (make_X date) \<and>
             (\<forall>row \<in> set (coef r). \<forall>b \<in> set i_bands.
                - int (length row) \<le> b \<and> b < int (length row))) \<longrightarrow>
          (\<exists>ras. get_prediction make_X date recs ysize xsize i_bands after before ndv = Inr ras)) \<and>
         (\<forall>v. - 32768 \<le> v \<and> v \<le> 32767 \<longrightarrow>
            real_of_int (sint (astype_int16 v)) = (if v < 0 then of_int \<lceil>v\<rceil> else of_int \<lfloor>v\<rfloor>))"
proof (intro conjI allI impI)
  let ?n = "length i_bands"
  let ?nd = "replicate ?n (word_of_int ndv :: 16 word)"
  let ?X = "make_X date"
  let ?ras0 = "replicate ysize (replicate xsize ?nd)"
  let ?I = "\<lambda>vis. raster_inv ysize xsize ?n
                    (\<lambda>y x p. p = pixel_after ?nd (stored_prediction i_bands ?X) vis y x)"
  let ?step = "\<lambda>ras rec. foldM (pred_step i_bands ?X rec) ras (find_indices rec date after before)"
  have def: "get_prediction make_X date recs ysize xsize i_bands after before ndv =
               foldM ?step ?ras0 recs"
    by (simp add: get_prediction_def Let_def)
  {
    fix ras y x
    assume a: "get_prediction make_X date recs ysize xsize i_bands after before ndv = Inr ras \<and>
               y < ysize \<and> x < xsize"
    then have f: "foldM ?step ?ras0 recs = Inr ras" by (simp add: def)
    have i0: "?I [] ?ras0"
      by (simp add: raster_inv_def pixel_after_def)
    have "?I ([] @ concat (map (\<lambda>rec. concat (map (map (\<lambda>i. rec ! i))
                  (find_indices rec date after before))) recs)) ras"
    proof (rule foldM_visited [where I = ?I, OF f i0])
      fix v a rec b
      assume va: "?I v a" and "rec \<in> set recs"
        and b: "foldM (pred_step i_bands ?X rec) a (find_indices rec date after before) = Inr b"
      show "?I (v @ concat (map (map (\<lambda>i. rec ! i)) (find_indices rec date after before))) b"
      proof (rule foldM_visited [where I = ?I, OF b va])
        fix v' a' index b'
        assume "?I v' a'" and "pred_step i_bands ?X rec a' index = Inr b'"
        then show "?I (v' @ map (\<lambda>i. rec ! i) index) b'"
          by (intro pred_step_visited) simp_all
      qed
    qed
    then have "?I (selected_records recs date after before) ras"
      by (simp add: selected_records_def)
    with a show "ras ! y ! x =
              pixel_after ?nd (stored_prediction i_bands ?X)
                (selected_records recs date after before) y x"
      unfolding raster_inv_def by blast
  }
  {
    assume wf: "\<forall>r \<in> set (selected_records recs date after before).
             unat (py r) < ysize \<and> unat (px r) < xsize \<and>
             length (coef r) = length ?X \<and>
             (\<forall>row \<in> set (coef r). \<forall>b \<in> set i_bands.
                - int (length row) \<le> b \<and> b < int (length row))"
    let ?J = "raster_inv ysize xsize ?n (\<lambda>y x (p :: 16 word list). True)"
    have j0: "?J ?ras0" by (simp add: raster_inv_def)
    have "\<exists>ras. foldM ?step ?ras0 recs = Inr ras \<and> ?J ras"
    proof (rule foldM_ok [where I = ?J, OF j0])
      fix a rec assume a: "?J a" and rec: "rec \<in> set recs"
      show "\<exists>b. foldM (pred_step i_bands ?X rec) a (find_indices rec date after before) = Inr b
                \<and> ?J b"
      proof (rule foldM_ok [where I = ?J, OF a])
        fix a' index
        assume a': "?J a'" and index: "index \<in> set (find_indices rec date after before)"
        show "\<exists>b. pred_step i_bands ?X rec a' index = Inr b \<and> ?J b"
        proof (rule pred_step_ok [OF a'])
          fix i assume "i \<in> set index"
          from selected_recordsI [OF rec index this] wf
          show "unat (py (rec ! i)) < ysize \<and> unat (px (rec ! i)) < xsize \<and>
               length (coef (rec ! i)) = length ?X \<and>
               (\<forall>row \<in> set (coef (rec ! i)). \<forall>b \<in> set i_bands.
                  - int (length row) \<le> b \<and> b < int (length row))"
            by blast
        qed
      qed
    qed
    then show "\<exists>ras. get_prediction make_X date recs ysize xsize i_bands after before ndv = Inr ras"
      unfolding def by blast
  }
  {
    fix v :: real
    assume "- 32768 \<le> v \<and> v \<le> 32767"
    then have "sint (astype_int16 v) = (if v < 0 then \<lceil>v\<rceil> else \<lfloor>v\<rfloor>)"
      by (intro astype_int16_in_range) simp_all
    then show "real_of_int (sint (astype_int16 v)) =
                 (if v < 0 then of_int \<lceil>v\<rceil> else of_int \<lfloor>v\<rfloor>)"
      by simp
  }
qed

theorem get_prediction_stores_truncated_inner_product_witness:
  "(let r = \<lparr>start = 0, end_date = 10, break = 0, coef = [[1], [2]], px = 0, py = 0,
              rmse = [3], robust_coef = [[7], [8]], robust_rmse = [3]\<rparr>;
        make_X = (\<lambda>d. [1, real_of_int d]);
        ras = [[[21 :: 16 word]]]
    in - 32768 \<le> (- 9999 :: int) \<and> (- 9999 :: int) \<le> 32767 \<and>
       get_prediction make_X 10 [[r]] 1 1 [0] False True (- 9999) = Inr ras \<and>
       selected_records [[r]] 10 False True = [r, r] \<and>
       stored_prediction [0] (make_X 10) r = [21] \<and>
       ras ! 0 ! 0 =
         pixel_after (replicate (length [0 :: int]) (word_of_int (- 9999)))
           (stored_prediction [0] (make_X 10)) (selected_records [[r]] 10 False True) 0 0 \<and>
       (\<exists>ras'. get_prediction make_X 10 [[r]] 1 1 [0] False True (- 9999) = Inr ras') \<and>
       real_of_int (sint (astype_int16 (3 / 2))) = 1)"
proof -
  let ?r = "\<lparr>start = 0, end_date = 10, break = 0, coef = [[1], [2]], px = 0, py = 0,
              rmse = [3], robust_coef = [[7], [8]], robust_rmse = [3]\<rparr> :: result"
  let ?X = "\<lambda>d. [1, real_of_int d]"
  have lo: "- 32768 \<le> (- 9999 :: int)" and hi: "(- 9999 :: int) \<le> 32767" by simp_all
  note t = get_prediction_stores_truncated_inner_product [OF lo hi,
      where make_X = ?X and date = 10 and recs = "[[?r]]" and ysize = 1 and xsize = 1
        and i_bands = "[0]" and after = False and before = True]
  have ev: "get_prediction ?X 10 [[?r]] 1 1 [0] False True (- 9999) = Inr [[[21]]]"
    by (simp add: get_prediction_def find_indices_def np_where_def pred_step_def
        predict_record_def take_indices_def py_index_def py_at_def raster_assign_def
        raster_write_def astype_int16_def)
  have sel: "selected_records [[?r]] 10 False True = [?r, ?r]"
    by (simp add: selected_records_def find_indices_def np_where_def)
  have sp: "stored_prediction [0] (?X 10) ?r = [21]"
    by (simp add: stored_prediction_def spec_inner_product_def py_at_def astype_int16_def)
  have pix: "[[[21 :: 16 word]]] ! 0 ! 0 =
         pixel_after (replicate (length [0 :: int]) (word_of_int (- 9999)))
           (stored_prediction [0] (?X 10)) (selected_records [[?r]] 10 False True) 0 0"
    using t [THEN conjunct1, THEN spec, THEN spec, THEN spec, of "[[[21]]]" 0 0] ev by simp
  have wf: "\<forall>r \<in> set (selected_records [[?r]] 10 False True).
             unat (py r) < 1 \<and> unat (px r) < 1 \<and>
             length (coef r) = length (?X 10) \<and>
             (\<forall>row \<in> set (coef r). \<forall>b \<in> set [0].
                - int (length row) \<le> b \<and> b < int (length row))"
    unfolding sel by simp
  have ex: "\<exists>ras'. get_prediction ?X 10 [[?r]] 1 1 [0] False True (- 9999) = Inr ras'"
    using t [THEN conjunct2, THEN conjunct1] wf by blast
  have tr: "real_of_int (sint (astype_int16 (3 / 2))) = 1"
    using t [THEN conjunct2, THEN conjunct2, THEN spec, of "3 / 2"] by simp
  show ?thesis
    unfolding Let_def by (intro conjI lo hi ev sel sp pix ex tr)
qed

end
